theory Spec2Isabelle
  imports Main
begin

section \<open>The shared-process coordinator (class SharedProcess)\<close>

text \<open>
  The class \<^verbatim>\<open>SharedProcess\<close> lives on the single-threaded main context of the
  parent process. Its methods are asynchronous: an \<^verbatim>\<open>await\<close> suspends the caller and
  the rest of the function runs later as a job of the microtask queue. The model makes
  this explicit: the state holds the fields of the class, a store of promises, the
  queue of promise jobs, the timers, the windows created so far and the trace of the
  calls made on the outside world. Every method is a function on that state; the part
  of an asynchronous method behind an \<^verbatim>\<open>await\<close> is a continuation that the event
  loop resumes with the outcome of the awaited promise.
\<close>

subsection \<open>Values, promises and continuations\<close>

text \<open>
  \<^verbatim>\<open>NodeJS.ProcessEnv\<close>: an object whose keys are strings and whose values are
  strings or \<^verbatim>\<open>undefined\<close>. A key the object does not have is \<open>None\<close>, a key it has
  with the value \<^verbatim>\<open>undefined\<close> is \<open>Some None\<close>. The object spread
  \<^verbatim>\<open>{ ...a, ...b }\<close> copies every key of \<^verbatim>\<open>b\<close> over \<^verbatim>\<open>a\<close>, the undefined ones as
  well, which is \<open>a ++ b\<close> on such maps.
\<close>

type_synonym processEnv = "string \<rightharpoonup> string option"

datatype error = Error string

datatype val = VUndefined | VTrue | VPort nat

datatype outcome = Pending | Fulfilled val | Rejected error

text \<open>
  Promise identities. The tag says which expression of the source created the promise:
  the asynchronous body behind \<^verbatim>\<open>_whenIpcReady\<close>, the promise awaiting the
  \<^verbatim>\<open>ipc-ready\<close> message inside that body, the promise of \<^verbatim>\<open>_whenReady\<close>, and the result
  promises of \<^verbatim>\<open>connect()\<close>, \<^verbatim>\<open>toggle()\<close> and of the channel-request handler.
\<close>

datatype pid = PIpc nat | PSignal nat | PReady nat | PConnect nat | PToggle nat | PHandler nat

text \<open>
  The suspended rest of an asynchronous function, named after the \<^verbatim>\<open>await\<close> it
  stands behind. The number is the function's own result promise.
\<close>

datatype cont =
    IpcAfterBarrier nat
  | IpcAfterSignal nat
  | ConnectAfterIpc nat
  | ToggleAfterIpc nat
  | HandlerAfterReady nat string nat
  | HandlerAfterConnect nat string nat

record promise =
  outcome :: outcome
  reactions :: "cont list"

subsection \<open>The outside world\<close>

record environmentService =
  appRoot :: string
  nodeCachedDataDir :: "string option"
  backupWorkspacesPath :: string
  sharedIPCHandle :: string
  args :: "string list"

record sharedProcessConfiguration =
  cfg_machineId :: string
  cfg_windowId :: nat
  cfg_appRoot :: string
  cfg_nodeCachedDataDir :: "string option"
  cfg_backupWorkspacesPath :: string
  cfg_userEnv :: processEnv
  cfg_sharedIPCHandle :: string
  cfg_args :: "string list"
  cfg_logLevel :: nat

text \<open>
  The configuration reaches the worker as \<^verbatim>\<open>JSON.stringify(config)\<close> in the query of
  the URL. \<^verbatim>\<open>JSON.stringify\<close> leaves out the keys of an object whose value is
  \<^verbatim>\<open>undefined\<close>; this is what it keeps of the environment.
\<close>

definition jsonUserEnv :: "sharedProcessConfiguration \<Rightarrow> string \<rightharpoonup> string" where
  "jsonUserEnv config =
     (\<lambda>key. case cfg_userEnv config key of Some (Some v) \<Rightarrow> Some v | _ \<Rightarrow> None)"

text \<open>
  A \<^verbatim>\<open>BrowserWindow\<close> object, as far as the class touches it: the configuration its
  URL was loaded with, the number of \<^verbatim>\<open>close\<close> listeners attached, whether its web
  contents are destroyed, and whether it is shown.
\<close>

record browserWindow =
  loadedConfig :: "sharedProcessConfiguration option"
  closeListeners :: nat
  contentsDestroyed :: bool
  visible :: bool
  devTools :: bool

datatype effect =
    Trace string
  | NewBrowserWindow nat
  | LoadURL nat
  | IpcMainOnce string
  | WindowOn nat string
  | WebContentsOn nat string
  | WindowRemoveListener nat string
  | WebContentsSend nat string
  | SetTimeout nat
  | WindowClose nat
  | ConnectMessagePort nat nat
  | PostMessage nat string val
  | WindowShow nat
  | WindowHide nat
  | OpenDevTools nat
  | CloseDevTools nat

definition ch_exit :: string where
  "ch_exit = ''vscode:electron-main->shared-process=exit''"

definition ch_init_done :: string where
  "ch_init_done = ''vscode:shared-process->electron-main=init-done''"

definition ch_ipc_ready :: string where
  "ch_ipc_ready = ''vscode:shared-process->electron-main=ipc-ready''"

definition msg_channel_request :: string where
  "msg_channel_request = ''SharedProcess: on vscode:createSharedProcessMessageChannel''"

definition msg_overall_ready :: string where
  "msg_overall_ready = ''SharedProcess: Overall ready''"

definition msg_ipc_ready :: string where
  "msg_ipc_ready = ''SharedProcess: IPC ready''"

definition connect_error :: error where
  "connect_error =
     Error ''Cannot connect to shared process window because the window is closed or destroyed''"

subsection \<open>The readiness gate\<close>

text \<open>
  Modelled from the spec: the class \<^verbatim>\<open>Barrier\<close> of \<^verbatim>\<open>vs/base/common/async\<close> is
  imported by the source but is not part of it. The spec describes it as a boolean
  \<^verbatim>\<open>opened\<close> plus the pending waiters; \<^verbatim>\<open>open()\<close> marks the gate permanently open and
  releases every current waiter, \<^verbatim>\<open>wait()\<close> suspends the caller until the gate is open
  and lets it continue at once when it already is.
\<close>

record barrier =
  isOpen :: bool
  waiters :: "cont list"

definition barrier_open :: "barrier \<Rightarrow> barrier \<times> cont list" where
  "barrier_open b = (\<lparr>isOpen = True, waiters = []\<rparr>, waiters b)"

definition barrier_wait :: "cont \<Rightarrow> barrier \<Rightarrow> barrier \<times> cont list" where
  "barrier_wait k b =
     (if isOpen b then (b, [k]) else (b\<lparr>waiters := waiters b @ [k]\<rparr>, []))"

subsection \<open>The state\<close>

record sharedProcess =
  machineId :: string
  userEnv :: processEnv
  environmentService :: environmentService
  logLevel :: nat
  whenSpawnedBarrier :: barrier
  window :: "nat option"
  windowCloseListener :: bool
  memo_whenReady :: "nat option"
  memo_whenIpcReady :: "nat option"
  promises :: "pid \<Rightarrow> promise"
  nextPid :: nat
  windows :: "nat \<Rightarrow> browserWindow"
  nextWindowId :: nat
  nextPort :: nat
  onceIpcReady :: "nat list"
  onceInitDone :: "nat list"
  microtasks :: "(cont \<times> outcome) list"
  timers :: "nat list"
  trace :: "effect list"

definition emit :: "effect \<Rightarrow> sharedProcess \<Rightarrow> sharedProcess" where
  "emit e s = s\<lparr>trace := trace s @ [e]\<rparr>"

definition enqueue :: "cont \<Rightarrow> outcome \<Rightarrow> sharedProcess \<Rightarrow> sharedProcess" where
  "enqueue k out s = s\<lparr>microtasks := microtasks s @ [(k, out)]\<rparr>"

text \<open>
  Settling a promise: a pending promise takes the outcome and each of its reactions
  becomes a job of the microtask queue; a settled promise stays as it is.
\<close>

definition settle :: "pid \<Rightarrow> outcome \<Rightarrow> sharedProcess \<Rightarrow> sharedProcess" where
  "settle p out s =
     (case outcome (promises s p) of
        Pending \<Rightarrow>
          s\<lparr>promises := (promises s)(p := \<lparr>outcome = out, reactions = []\<rparr>),
            microtasks := microtasks s @ map (\<lambda>k. (k, out)) (reactions (promises s p))\<rparr>
      | _ \<Rightarrow> s)"

text \<open>
  \<^verbatim>\<open>await p\<close>: the continuation is a reaction of a pending promise, and a job of the
  queue at once when the promise is settled already. It never runs synchronously.
\<close>

definition await :: "pid \<Rightarrow> cont \<Rightarrow> sharedProcess \<Rightarrow> sharedProcess" where
  "await p k s =
     (case outcome (promises s p) of
        Pending \<Rightarrow>
          s\<lparr>promises := (promises s)(p := (promises s p)\<lparr>reactions := reactions (promises s p) @ [k]\<rparr>)\<rparr>
      | out \<Rightarrow> enqueue k out s)"

definition newPid :: "sharedProcess \<Rightarrow> nat \<times> sharedProcess" where
  "newPid s = (nextPid s, s\<lparr>nextPid := Suc (nextPid s)\<rparr>)"

definition openBarrier :: "sharedProcess \<Rightarrow> sharedProcess" where
  "openBarrier s =
     (case barrier_open (whenSpawnedBarrier s) of
        (b, released) \<Rightarrow>
          s\<lparr>whenSpawnedBarrier := b,
            microtasks := microtasks s @ map (\<lambda>k. (k, Fulfilled VTrue)) released\<rparr>)"

definition awaitBarrier :: "cont \<Rightarrow> sharedProcess \<Rightarrow> sharedProcess" where
  "awaitBarrier k s =
     (case barrier_wait k (whenSpawnedBarrier s) of
        (b, released) \<Rightarrow>
          s\<lparr>whenSpawnedBarrier := b,
            microtasks := microtasks s @ map (\<lambda>k. (k, Fulfilled VTrue)) released\<rparr>)"

subsection \<open>The methods of the class\<close>

text \<open>The constructor: nothing is created and nothing is awaited yet.\<close>

definition init :: "string \<Rightarrow> processEnv \<Rightarrow> environmentService \<Rightarrow> nat \<Rightarrow> sharedProcess" where
  "init mid env svc lvl =
     \<lparr>machineId = mid, userEnv = env, environmentService = svc, logLevel = lvl,
      whenSpawnedBarrier = \<lparr>isOpen = False, waiters = []\<rparr>,
      window = None, windowCloseListener = False,
      memo_whenReady = None, memo_whenIpcReady = None,
      promises = (\<lambda>_. \<lparr>outcome = Pending, reactions = []\<rparr>), nextPid = 0,
      windows = (\<lambda>_. \<lparr>loadedConfig = None, closeListeners = 0, contentsDestroyed = False,
                        visible = False, devTools = False\<rparr>),
      nextWindowId = 0, nextPort = 0,
      onceIpcReady = [], onceInitDone = [],
      microtasks = [], timers = [], trace = []\<rparr>"

text \<open>\<^verbatim>\<open>createWindow()\<close>: a new hidden window, stored in the handle, loaded with the
  configuration built from the fields as they are now.\<close>

definition createWindow :: "sharedProcess \<Rightarrow> sharedProcess" where
  "createWindow s =
     (let w = nextWindowId s;
          config = \<lparr>cfg_machineId = machineId s,
                    cfg_windowId = w,
                    cfg_appRoot = appRoot (environmentService s),
                    cfg_nodeCachedDataDir = nodeCachedDataDir (environmentService s),
                    cfg_backupWorkspacesPath = backupWorkspacesPath (environmentService s),
                    cfg_userEnv = userEnv s,
                    cfg_sharedIPCHandle = sharedIPCHandle (environmentService s),
                    cfg_args = args (environmentService s),
                    cfg_logLevel = logLevel s\<rparr>
      in emit (LoadURL w)
           (emit (NewBrowserWindow w)
              (s\<lparr>window := Some w,
                 nextWindowId := Suc w,
                 windows := (windows s)(w := \<lparr>loadedConfig = Some config, closeListeners = 0,
                                               contentsDestroyed = False, visible = False,
                                               devTools = False\<rparr>)\<rparr>)))"

definition registerWindowListeners :: "sharedProcess \<Rightarrow> sharedProcess" where
  "registerWindowListeners s =
     (case window s of
        None \<Rightarrow> s
      | Some w \<Rightarrow>
          emit (WebContentsOn w ''did-fail-load'')
            (emit (WindowOn w ''unresponsive'')
               (emit (WebContentsOn w ''render-process-gone'')
                  (emit (WindowOn w ''close'')
                     (s\<lparr>windowCloseListener := True,
                        windows := (windows s)(w := (windows s w)
                          \<lparr>closeListeners := Suc (closeListeners (windows s w))\<rparr>)\<rparr>)))))"

text \<open>The getter \<^verbatim>\<open>whenIpcReady\<close>. The first access starts the asynchronous body, which
  runs up to its first \<^verbatim>\<open>await\<close> (the barrier), and stores the body's promise.\<close>

definition whenIpcReady :: "sharedProcess \<Rightarrow> nat \<times> sharedProcess" where
  "whenIpcReady s =
     (case memo_whenIpcReady s of
        Some p \<Rightarrow> (p, s)
      | None \<Rightarrow>
          (case newPid s of
             (p, s1) \<Rightarrow> (p, (awaitBarrier (IpcAfterBarrier p) s1)\<lparr>memo_whenIpcReady := Some p\<rparr>)))"

text \<open>The body of \<^verbatim>\<open>whenIpcReady\<close> behind \<^verbatim>\<open>await this.whenSpawnedBarrier.wait()\<close>.\<close>

definition ipcAfterBarrier :: "nat \<Rightarrow> sharedProcess \<Rightarrow> sharedProcess" where
  "ipcAfterBarrier p s =
     (case newPid (registerWindowListeners (createWindow s)) of
        (q, s1) \<Rightarrow>
          await (PSignal q) (IpcAfterSignal p)
            (emit (IpcMainOnce ch_ipc_ready) (s1\<lparr>onceIpcReady := onceIpcReady s1 @ [q]\<rparr>)))"

text \<open>The same body behind the second \<^verbatim>\<open>await\<close>: the function returns.\<close>

definition ipcAfterSignal :: "nat \<Rightarrow> outcome \<Rightarrow> sharedProcess \<Rightarrow> sharedProcess" where
  "ipcAfterSignal p out s =
     (case out of
        Rejected e \<Rightarrow> settle (PIpc p) (Rejected e) s
      | _ \<Rightarrow> settle (PIpc p) (Fulfilled VUndefined) s)"

text \<open>\<^verbatim>\<open>whenReady()\<close>: the first call registers the one-time listener for
  \<^verbatim>\<open>init-done\<close>.\<close>

definition whenReady :: "sharedProcess \<Rightarrow> nat \<times> sharedProcess" where
  "whenReady s =
     (case memo_whenReady s of
        Some p \<Rightarrow> (p, s)
      | None \<Rightarrow>
          (case newPid s of
             (p, s1) \<Rightarrow>
               (p, (emit (IpcMainOnce ch_init_done) (s1\<lparr>onceInitDone := onceInitDone s1 @ [p]\<rparr>))
                     \<lparr>memo_whenReady := Some p\<rparr>)))"

definition spawn :: "processEnv \<Rightarrow> sharedProcess \<Rightarrow> sharedProcess" where
  "spawn env s = openBarrier (s\<lparr>userEnv := userEnv s ++ env\<rparr>)"

text \<open>
  Modelled from the spec: \<^verbatim>\<open>connectMessagePort\<close> of \<^verbatim>\<open>vs/base/parts/ipc/electron-main/ipc.mp\<close>
  is imported by the source but is not part of it. The spec: it creates a new channel,
  transfers one end into the worker host and returns the other end; no two calls share a
  channel.
\<close>

definition connectMessagePort :: "nat \<Rightarrow> sharedProcess \<Rightarrow> nat \<times> sharedProcess" where
  "connectMessagePort w s =
     (nextPort s, emit (ConnectMessagePort w (nextPort s)) (s\<lparr>nextPort := Suc (nextPort s)\<rparr>))"

text \<open>\<^verbatim>\<open>connect()\<close> up to its \<^verbatim>\<open>await\<close>, and the rest of it.\<close>

definition connect :: "sharedProcess \<Rightarrow> nat \<times> sharedProcess" where
  "connect s =
     (case newPid s of
        (c, s1) \<Rightarrow>
          (case whenIpcReady s1 of
             (p, s2) \<Rightarrow> (c, await (PIpc p) (ConnectAfterIpc c) s2)))"

definition connectAfterIpc :: "nat \<Rightarrow> outcome \<Rightarrow> sharedProcess \<Rightarrow> sharedProcess" where
  "connectAfterIpc c out s =
     (case out of
        Rejected e \<Rightarrow> settle (PConnect c) (Rejected e) s
      | _ \<Rightarrow>
          (case window s of
             None \<Rightarrow> settle (PConnect c) (Rejected connect_error) s
           | Some w \<Rightarrow>
               if contentsDestroyed (windows s w)
               then settle (PConnect c) (Rejected connect_error) s
               else (case connectMessagePort w s of
                       (port, s1) \<Rightarrow> settle (PConnect c) (Fulfilled (VPort port)) s1)))"

definition toggle :: "sharedProcess \<Rightarrow> nat \<times> sharedProcess" where
  "toggle s =
     (case newPid s of
        (t, s1) \<Rightarrow>
          (case whenIpcReady s1 of
             (p, s2) \<Rightarrow> (t, await (PIpc p) (ToggleAfterIpc t) s2)))"

definition toggleAfterIpc :: "nat \<Rightarrow> outcome \<Rightarrow> sharedProcess \<Rightarrow> sharedProcess" where
  "toggleAfterIpc t out s =
     (case out of
        Rejected e \<Rightarrow> settle (PToggle t) (Rejected e) s
      | _ \<Rightarrow>
          (case window s of
             None \<Rightarrow> settle (PToggle t) (Fulfilled VUndefined) s
           | Some w \<Rightarrow>
               if visible (windows s w)
               then settle (PToggle t) (Fulfilled VUndefined)
                      (emit (WindowHide w) (emit (CloseDevTools w)
                         (s\<lparr>windows := (windows s)(w := (windows s w)
                               \<lparr>visible := False, devTools := False\<rparr>)\<rparr>)))
               else settle (PToggle t) (Fulfilled VUndefined)
                      (emit (OpenDevTools w) (emit (WindowShow w)
                         (s\<lparr>windows := (windows s)(w := (windows s w)
                               \<lparr>visible := True, devTools := True\<rparr>)\<rparr>)))))"

text \<open>The listener of \<^verbatim>\<open>vscode:createSharedProcessMessageChannel\<close> that
  \<^verbatim>\<open>registerListeners()\<close> installs, in its three parts.\<close>

definition channelRequest :: "nat \<Rightarrow> string \<Rightarrow> sharedProcess \<Rightarrow> sharedProcess" where
  "channelRequest sender nonce s =
     (case newPid (emit (Trace msg_channel_request) s) of
        (h, s1) \<Rightarrow>
          (case whenReady s1 of
             (p, s2) \<Rightarrow> await (PReady p) (HandlerAfterReady sender nonce h) s2))"

definition handlerAfterReady :: "nat \<Rightarrow> string \<Rightarrow> nat \<Rightarrow> outcome \<Rightarrow> sharedProcess \<Rightarrow> sharedProcess" where
  "handlerAfterReady sender nonce h out s =
     (case out of
        Rejected e \<Rightarrow> settle (PHandler h) (Rejected e) s
      | _ \<Rightarrow>
          (case connect s of
             (c, s1) \<Rightarrow> await (PConnect c) (HandlerAfterConnect sender nonce h) s1))"

definition handlerAfterConnect :: "nat \<Rightarrow> string \<Rightarrow> nat \<Rightarrow> outcome \<Rightarrow> sharedProcess \<Rightarrow> sharedProcess" where
  "handlerAfterConnect sender nonce h out s =
     (case out of
        Rejected e \<Rightarrow> settle (PHandler h) (Rejected e) s
      | Fulfilled port \<Rightarrow>
          settle (PHandler h) (Fulfilled VUndefined) (emit (PostMessage sender nonce port) s)
      | Pending \<Rightarrow> s)"

text \<open>\<^verbatim>\<open>onWillShutdown()\<close>. The deferred part is the callback of \<^verbatim>\<open>setTimeout\<close>; it keeps
  the window it was created for.\<close>

definition onWillShutdown :: "sharedProcess \<Rightarrow> sharedProcess" where
  "onWillShutdown s =
     (case window s of
        None \<Rightarrow> s
      | Some w \<Rightarrow>
          (let s1 = (if \<not> contentsDestroyed (windows s w)
                     then emit (WebContentsSend w ch_exit) s else s);
               s2 = (if windowCloseListener s1
                     then emit (WindowRemoveListener w ''close'')
                            (s1\<lparr>windows := (windows s1)(w := (windows s1 w)
                                   \<lparr>closeListeners := closeListeners (windows s1 w) - 1\<rparr>),
                                windowCloseListener := False\<rparr>)
                     else s1)
           in emit (SetTimeout w) (s2\<lparr>timers := timers s2 @ [w]\<rparr>)))"

text \<open>\<^verbatim>\<open>window.close()\<close> is a call into the platform. Whether it throws is decided
  outside the program, so it is an argument.\<close>

definition windowClose :: "bool \<Rightarrow> nat \<Rightarrow> sharedProcess \<Rightarrow> error option \<times> sharedProcess" where
  "windowClose throws w s =
     (if throws then Some (Error ''close failed'') else None, emit (WindowClose w) s)"

definition shutdownTimeout :: "bool \<Rightarrow> nat \<Rightarrow> sharedProcess \<Rightarrow> error option \<times> sharedProcess" where
  "shutdownTimeout throws w s =
     (case windowClose throws w s of
        (Some err, s1) \<Rightarrow> (None, s1\<lparr>window := None\<rparr>)
      | (None, s1) \<Rightarrow> (None, s1\<lparr>window := None\<rparr>))"

subsection \<open>Messages of the worker\<close>

text \<open>The one-time listeners of \<^verbatim>\<open>ipcMain\<close>: each logs and resolves its promise. A
  message calls the listeners registered for it in order and forgets them.\<close>

definition ipcReadyListener :: "nat \<Rightarrow> sharedProcess \<Rightarrow> sharedProcess" where
  "ipcReadyListener q s = settle (PSignal q) (Fulfilled VUndefined) (emit (Trace msg_ipc_ready) s)"

definition initDoneListener :: "nat \<Rightarrow> sharedProcess \<Rightarrow> sharedProcess" where
  "initDoneListener p s = settle (PReady p) (Fulfilled VUndefined) (emit (Trace msg_overall_ready) s)"

fun callAll :: "(nat \<Rightarrow> sharedProcess \<Rightarrow> sharedProcess) \<Rightarrow> nat list \<Rightarrow> sharedProcess \<Rightarrow> sharedProcess" where
  "callAll f [] s = s"
| "callAll f (q # qs) s = callAll f qs (f q s)"

definition onIpcReady :: "sharedProcess \<Rightarrow> sharedProcess" where
  "onIpcReady s = callAll ipcReadyListener (onceIpcReady s) (s\<lparr>onceIpcReady := []\<rparr>)"

definition onInitDone :: "sharedProcess \<Rightarrow> sharedProcess" where
  "onInitDone s = callAll initDoneListener (onceInitDone s) (s\<lparr>onceInitDone := []\<rparr>)"

subsection \<open>The event loop\<close>

definition resume :: "cont \<Rightarrow> outcome \<Rightarrow> sharedProcess \<Rightarrow> sharedProcess" where
  "resume k out s =
     (case k of
        IpcAfterBarrier p \<Rightarrow> ipcAfterBarrier p s
      | IpcAfterSignal p \<Rightarrow> ipcAfterSignal p out s
      | ConnectAfterIpc c \<Rightarrow> connectAfterIpc c out s
      | ToggleAfterIpc t \<Rightarrow> toggleAfterIpc t out s
      | HandlerAfterReady sender nonce h \<Rightarrow> handlerAfterReady sender nonce h out s
      | HandlerAfterConnect sender nonce h \<Rightarrow> handlerAfterConnect sender nonce h out s)"

text \<open>
  What can happen to a coordinator: a call of one of its public methods, a message on
  \<^verbatim>\<open>ipcMain\<close>, the shutdown signal of the lifecycle service, the next job of the microtask
  queue, the next timer (with the platform's answer to \<^verbatim>\<open>close()\<close>), and the platform
  destroying the contents of a window. The order of events is not restricted: every
  schedule of the real event loop, which empties the microtask queue before it takes the
  next message or timer, is one of the sequences considered.
\<close>

datatype event =
    Spawn processEnv
  | Connect
  | Toggle
  | WhenReady
  | ChannelRequest nat string
  | IpcReadyMessage
  | InitDoneMessage
  | WillShutdown
  | Microtask
  | Timeout bool
  | ContentsDestroyed nat

definition runMicrotask :: "sharedProcess \<Rightarrow> sharedProcess" where
  "runMicrotask s =
     (case microtasks s of
        [] \<Rightarrow> s
      | (k, out) # rest \<Rightarrow> resume k out (s\<lparr>microtasks := rest\<rparr>))"

definition runTimer :: "bool \<Rightarrow> sharedProcess \<Rightarrow> sharedProcess" where
  "runTimer throws s =
     (case timers s of
        [] \<Rightarrow> s
      | w # rest \<Rightarrow> snd (shutdownTimeout throws w (s\<lparr>timers := rest\<rparr>)))"

fun step :: "event \<Rightarrow> sharedProcess \<Rightarrow> sharedProcess" where
  "step (Spawn env) s = spawn env s"
| "step Connect s = snd (connect s)"
| "step Toggle s = snd (toggle s)"
| "step WhenReady s = snd (whenReady s)"
| "step (ChannelRequest sender nonce) s = channelRequest sender nonce s"
| "step IpcReadyMessage s = onIpcReady s"
| "step InitDoneMessage s = onInitDone s"
| "step WillShutdown s = onWillShutdown s"
| "step Microtask s = runMicrotask s"
| "step (Timeout throws) s = runTimer throws s"
| "step (ContentsDestroyed w) s =
     s\<lparr>windows := (windows s)(w := (windows s w)\<lparr>contentsDestroyed := True\<rparr>)\<rparr>"

fun run :: "event list \<Rightarrow> sharedProcess \<Rightarrow> sharedProcess" where
  "run [] s = s"
| "run (e # es) s = run es (step e s)"

section \<open>Invariants of the handshake\<close>


definition opened :: "sharedProcess \<Rightarrow> bool" where
  "opened s = isOpen (whenSpawnedBarrier s)"

definition ipcReadySeen :: "sharedProcess \<Rightarrow> bool" where
  "ipcReadySeen s = (Trace msg_ipc_ready \<in> set (trace s))"

definition initDoneSeen :: "sharedProcess \<Rightarrow> bool" where
  "initDoneSeen s = (Trace msg_overall_ready \<in> set (trace s))"

fun isBody :: "cont \<Rightarrow> bool" where
  "isBody (IpcAfterBarrier p) = True"
| "isBody _ = False"

fun isPost :: "effect \<Rightarrow> bool" where
  "isPost (PostMessage sender nonce v) = True"
| "isPost _ = False"

type_synonym facts = "bool \<times> bool \<times> bool"

definition facts :: "sharedProcess \<Rightarrow> facts" where
  "facts s = (opened s, ipcReadySeen s, initDoneSeen s)"

fun jobOk :: "facts \<Rightarrow> cont \<Rightarrow> outcome \<Rightarrow> bool" where
  "jobOk (op, ip, rd) (IpcAfterBarrier p) out = op"
| "jobOk (op, ip, rd) (IpcAfterSignal p) out = (op \<and> ip)"
| "jobOk (op, ip, rd) (ConnectAfterIpc c) out = (op \<and> ip)"
| "jobOk (op, ip, rd) (ToggleAfterIpc t) out = (op \<and> ip)"
| "jobOk (op, ip, rd) (HandlerAfterReady sender nonce h) out = rd"
| "jobOk (op, ip, rd) (HandlerAfterConnect sender nonce h) out =
     (rd \<and> (\<forall>v. out = Fulfilled v \<longrightarrow> op \<and> ip))"

fun reactOk :: "facts \<Rightarrow> pid \<Rightarrow> cont \<Rightarrow> bool" where
  "reactOk (op, ip, rd) (PSignal q) (IpcAfterSignal p) = op"
| "reactOk (op, ip, rd) (PIpc q) (ConnectAfterIpc c) = True"
| "reactOk (op, ip, rd) (PIpc q) (ToggleAfterIpc t) = True"
| "reactOk (op, ip, rd) (PReady q) (HandlerAfterReady sender nonce h) = True"
| "reactOk (op, ip, rd) (PConnect q) (HandlerAfterConnect sender nonce h) = rd"
| "reactOk _ _ _ = False"

fun settledOk :: "facts \<Rightarrow> pid \<Rightarrow> outcome \<Rightarrow> bool" where
  "settledOk (op, ip, rd) (PSignal q) out = ip"
| "settledOk (op, ip, rd) (PIpc q) out = (op \<and> ip)"
| "settledOk (op, ip, rd) (PReady q) out = rd"
| "settledOk (op, ip, rd) (PConnect q) out = (\<forall>v. out = Fulfilled v \<longrightarrow> op \<and> ip)"
| "settledOk _ _ out = True"

fun facts_le :: "facts \<Rightarrow> facts \<Rightarrow> bool" where
  "facts_le (op, ip, rd) (op', ip', rd') = ((op \<longrightarrow> op') \<and> (ip \<longrightarrow> ip') \<and> (rd \<longrightarrow> rd'))"

definition handshake_inv :: "sharedProcess \<Rightarrow> bool" where
  "handshake_inv s =
     ((\<forall>(k, out) \<in> set (microtasks s). jobOk (facts s) k out) \<and>
      (\<forall>p. \<forall>k \<in> set (reactions (promises s p)). reactOk (facts s) p k) \<and>
      (\<forall>p. outcome (promises s p) \<noteq> Pending \<longrightarrow> settledOk (facts s) p (outcome (promises s p))) \<and>
      (\<forall>k \<in> set (waiters (whenSpawnedBarrier s)). isBody k) \<and>
      (\<forall>e \<in> set (trace s). isPost e \<longrightarrow> facts s = (True, True, True)))"

subsection \<open>Counting host creations\<close>


fun isNewWindow :: "effect \<Rightarrow> bool" where
  "isNewWindow (NewBrowserWindow w) = True"
| "isNewWindow _ = False"

fun isCloseOn :: "effect \<Rightarrow> bool" where
  "isCloseOn (WindowOn w ev) = (ev = ''close'')"
| "isCloseOn _ = False"

definition hostCreations :: "sharedProcess \<Rightarrow> nat" where
  "hostCreations s = length (filter isNewWindow (trace s))"

definition closeListenerRegistrations :: "sharedProcess \<Rightarrow> nat" where
  "closeListenerRegistrations s = length (filter isCloseOn (trace s))"

definition pendingBodies :: "sharedProcess \<Rightarrow> nat" where
  "pendingBodies s =
     length (filter isBody (waiters (whenSpawnedBarrier s))) +
     length (filter (\<lambda>j. isBody (fst j)) (microtasks s))"

definition noBodyReactions :: "sharedProcess \<Rightarrow> bool" where
  "noBodyReactions s = (\<forall>p. \<forall>k \<in> set (reactions (promises s p)). \<not> isBody k)"

definition once_inv :: "sharedProcess \<Rightarrow> bool" where
  "once_inv s =
     (pendingBodies s + hostCreations s = (case memo_whenIpcReady s of None \<Rightarrow> 0 | Some p \<Rightarrow> 1) \<and>
      closeListenerRegistrations s = hostCreations s \<and>
      (opened s \<longrightarrow> waiters (whenSpawnedBarrier s) = []) \<and>
      noBodyReactions s)"

subsection \<open>Ports handed out\<close>

text \<open>Every port a \<^verbatim>\<open>connect()\<close> call has returned was allocated before.\<close>


definition ports_inv :: "sharedProcess \<Rightarrow> bool" where
  "ports_inv s =
     (\<forall>d port. outcome (promises s (PConnect d)) = Fulfilled (VPort port) \<longrightarrow> port < nextPort s)"

subsection \<open>The close veto\<close>

text \<open>While the handle holds a window, either the veto listener is attached to it, or it
  has been removed by a shutdown; and a close is only ever scheduled for a window whose
  veto has been removed.\<close>


definition veto_inv :: "sharedProcess \<Rightarrow> bool" where
  "veto_inv s =
     ((\<forall>w. window s = Some w \<longrightarrow>
         (if windowCloseListener s then closeListeners (windows s w) = 1
          else closeListeners (windows s w) = 0 \<and>
               WindowRemoveListener w ''close'' \<in> set (trace s))) \<and>
      (\<forall>w \<in> set (timers s). WindowRemoveListener w ''close'' \<in> set (trace s)))"

subsection \<open>Progress of the ipc-ready milestone\<close>

text \<open>The continuations of the body behind \<^verbatim>\<open>whenIpcReady\<close> belong to the memoized
  promise; a registered \<^verbatim>\<open>ipc-ready\<close> listener has the body waiting behind it; and once
  the message has been observed, the memoized promise is settled or the job that settles
  it is in the queue.\<close>


fun ownerOk :: "nat option \<Rightarrow> cont \<Rightarrow> bool" where
  "ownerOk m (IpcAfterBarrier p) = (m = Some p)"
| "ownerOk m (IpcAfterSignal p) = (m = Some p)"
| "ownerOk m _ = True"

definition owner_inv :: "sharedProcess \<Rightarrow> bool" where
  "owner_inv s =
     ((\<forall>k \<in> set (waiters (whenSpawnedBarrier s)). ownerOk (memo_whenIpcReady s) k) \<and>
      (\<forall>(k, out) \<in> set (microtasks s). ownerOk (memo_whenIpcReady s) k) \<and>
      (\<forall>q. \<forall>k \<in> set (reactions (promises s q)). ownerOk (memo_whenIpcReady s) k))"

definition ipc_progress :: "sharedProcess \<Rightarrow> bool" where
  "ipc_progress s =
     (\<exists>p. memo_whenIpcReady s = Some p \<and>
          (outcome (promises s (PIpc p)) \<noteq> Pending \<or>
           (\<exists>out. (IpcAfterSignal p, out) \<in> set (microtasks s))))"

definition listening :: "sharedProcess \<Rightarrow> nat \<Rightarrow> bool" where
  "listening s q =
     (outcome (promises s (PSignal q)) = Pending \<and>
      (\<exists>p. IpcAfterSignal p \<in> set (reactions (promises s (PSignal q)))))"

definition signal_inv :: "sharedProcess \<Rightarrow> bool" where
  "signal_inv s =
     (owner_inv s \<and>
      (\<forall>q \<in> set (onceIpcReady s). listening s q \<or> ipc_progress s) \<and>
      (ipcReadySeen s \<longrightarrow> ipc_progress s))"

subsection \<open>What an operation leaves as it is\<close>

text \<open>
  No operation other than taking the next job removes a job from the queue; a reaction
  of a promise stays one or has become a job; windows are only added, and the
  configuration of a window that exists does not change. A settled promise has no
  reactions left. The overlays of a sequence of events are those of its
  \<^verbatim>\<open>spawn\<close> calls, in order.
\<close>


definition evolves :: "sharedProcess \<Rightarrow> sharedProcess \<Rightarrow> bool" where
  "evolves s s' =
     ((\<exists>xs. microtasks s' = microtasks s @ xs) \<and>
      (\<forall>p k. k \<in> set (reactions (promises s p)) \<longrightarrow>
         k \<in> set (reactions (promises s' p)) \<or> (\<exists>out. (k, out) \<in> set (microtasks s'))) \<and>
      nextWindowId s \<le> nextWindowId s' \<and>
      (\<forall>w < nextWindowId s. loadedConfig (windows s' w) = loadedConfig (windows s w)))"

definition tidy :: "sharedProcess \<Rightarrow> bool" where
  "tidy s = (\<forall>p. outcome (promises s p) \<noteq> Pending \<longrightarrow> reactions (promises s p) = [])"

fun overlaysOf :: "event list \<Rightarrow> processEnv list" where
  "overlaysOf [] = []"
| "overlaysOf (Spawn env # es) = env # overlaysOf es"
| "overlaysOf (e # es) = overlaysOf es"

text \<open>A concrete coordinator as the constructor leaves it, for the examples.\<close>

definition services0 :: environmentService where
  "services0 = \<lparr>appRoot = ''/app'', nodeCachedDataDir = None, backupWorkspacesPath = ''/backups'',
                 sharedIPCHandle = ''/tmp/shared.sock'', args = []\<rparr>"

definition fresh :: sharedProcess where
  "fresh = init ''machine'' Map.empty services0 0"

section \<open>Proofs\<close>

subsection \<open>The handshake invariant holds in every reachable state\<close>

lemma jobOk_mono: "jobOk f k out \<Longrightarrow> facts_le f f' \<Longrightarrow> jobOk f' k out"
  by (cases "(f, k, out)" rule: jobOk.cases; cases f') auto

lemma reactOk_mono: "reactOk f p k \<Longrightarrow> facts_le f f' \<Longrightarrow> reactOk f' p k"
  by (cases "(f, p, k)" rule: reactOk.cases; cases f') auto

lemma settledOk_mono: "settledOk f p out \<Longrightarrow> facts_le f f' \<Longrightarrow> settledOk f' p out"
  by (cases "(f, p, out)" rule: settledOk.cases; cases f') auto

lemma react_settled_job: "reactOk f p k \<Longrightarrow> settledOk f p out \<Longrightarrow> jobOk f k out"
  by (cases "(f, p, k)" rule: reactOk.cases) auto

lemma reactOk_any [simp]:
  "reactOk f (PIpc q) (ConnectAfterIpc c)" "reactOk f (PIpc q) (ToggleAfterIpc t)"
  "reactOk f (PReady q) (HandlerAfterReady sender nonce h)"
  by (cases f; simp)+

lemma facts_le_refl [simp]: "facts_le f f"
  by (cases f) simp

lemma facts_le_top: "facts_le (True, True, True) f \<Longrightarrow> f = (True, True, True)"
  by (cases f) simp

lemma handshake_inv_frame:
  assumes "handshake_inv s" and "facts_le (facts s) (facts s')"
    and "set (microtasks s') \<subseteq> set (microtasks s)"
    and "promises s' = promises s"
    and "set (waiters (whenSpawnedBarrier s')) \<subseteq> set (waiters (whenSpawnedBarrier s))"
    and "\<forall>e \<in> set (trace s'). isPost e \<longrightarrow> e \<in> set (trace s)"
  shows "handshake_inv s'"
  using assms unfolding handshake_inv_def
  apply (intro conjI)
      apply (blast intro: jobOk_mono)
     apply (metis reactOk_mono)
    apply (metis settledOk_mono)
   apply blast
  apply (metis facts_le_top)
  done

lemma facts_emit:
  "facts (emit e s) = (opened s, ipcReadySeen s \<or> e = Trace msg_ipc_ready,
                       initDoneSeen s \<or> e = Trace msg_overall_ready)"
  by (auto simp: facts_def emit_def opened_def ipcReadySeen_def initDoneSeen_def)

lemma facts_le_emit [simp]: "facts_le (facts s) (facts (emit e s))"
  by (simp add: facts_emit) (simp add: facts_def)

lemma msgs_distinct [simp]:
  "msg_channel_request \<noteq> msg_ipc_ready" "msg_channel_request \<noteq> msg_overall_ready"
  "msg_ipc_ready \<noteq> msg_overall_ready" "msg_overall_ready \<noteq> msg_ipc_ready"
  by (simp_all add: msg_channel_request_def msg_ipc_ready_def msg_overall_ready_def)

lemma facts_emit_other [simp]:
  "e \<noteq> Trace msg_ipc_ready \<Longrightarrow> e \<noteq> Trace msg_overall_ready \<Longrightarrow> facts (emit e s) = facts s"
  by (simp add: facts_emit) (simp add: facts_def)

lemma facts_enqueue [simp]: "facts (enqueue k out s) = facts s"
  by (simp add: facts_def enqueue_def opened_def ipcReadySeen_def initDoneSeen_def)

lemma facts_settle [simp]: "facts (settle p out s) = facts s"
  by (simp add: facts_def settle_def opened_def ipcReadySeen_def initDoneSeen_def split: outcome.splits)

lemma facts_await [simp]: "facts (await p k s) = facts s"
  by (simp add: facts_def await_def enqueue_def opened_def ipcReadySeen_def initDoneSeen_def split: outcome.splits)

lemma emit_fields [simp]:
  "microtasks (emit e s) = microtasks s"
  "promises (emit e s) = promises s"
  "whenSpawnedBarrier (emit e s) = whenSpawnedBarrier s"
  "trace (emit e s) = trace s @ [e]"
  "memo_whenIpcReady (emit e s) = memo_whenIpcReady s"
  "memo_whenReady (emit e s) = memo_whenReady s"
  "window (emit e s) = window s"
  "windows (emit e s) = windows s"
  "windowCloseListener (emit e s) = windowCloseListener s"
  "timers (emit e s) = timers s"
  "nextPid (emit e s) = nextPid s"
  "nextPort (emit e s) = nextPort s"
  "nextWindowId (emit e s) = nextWindowId s"
  "onceIpcReady (emit e s) = onceIpcReady s"
  "onceInitDone (emit e s) = onceInitDone s"
  "userEnv (emit e s) = userEnv s"
  by (simp_all add: emit_def)

lemma hs_emit:
  "handshake_inv s \<Longrightarrow> \<not> isPost e \<Longrightarrow> handshake_inv (emit e s)"
  by (erule handshake_inv_frame) auto

lemma hs_emit_post:
  "handshake_inv s \<Longrightarrow> facts s = (True, True, True) \<Longrightarrow> handshake_inv (emit (PostMessage a b c) s)"
  unfolding handshake_inv_def
  by (simp add: facts_emit) (auto simp: emit_def facts_def)

lemma hs_settle:
  "handshake_inv s \<Longrightarrow> settledOk (facts s) p out \<Longrightarrow> handshake_inv (settle p out s)"
  unfolding handshake_inv_def
  apply simp
  apply (auto simp: settle_def split: outcome.splits intro: react_settled_job)
  done

lemma hs_await:
  "handshake_inv s \<Longrightarrow> reactOk (facts s) p k \<Longrightarrow> handshake_inv (await p k s)"
  unfolding handshake_inv_def
  apply simp
  apply (auto simp: await_def enqueue_def split: outcome.splits)
     apply (metis react_settled_job outcome.distinct(2) outcome.distinct(4))+
  done


lemma facts_upd [simp]:
  "facts (s\<lparr>nextPid := a1\<rparr>) = facts s"
  "facts (s\<lparr>memo_whenIpcReady := a2\<rparr>) = facts s"
  "facts (s\<lparr>memo_whenReady := a3\<rparr>) = facts s"
  "facts (s\<lparr>onceIpcReady := a4\<rparr>) = facts s"
  "facts (s\<lparr>onceInitDone := a5\<rparr>) = facts s"
  "facts (s\<lparr>window := a6\<rparr>) = facts s"
  "facts (s\<lparr>windows := a7\<rparr>) = facts s"
  "facts (s\<lparr>nextWindowId := a8\<rparr>) = facts s"
  "facts (s\<lparr>windowCloseListener := a9\<rparr>) = facts s"
  "facts (s\<lparr>timers := a10\<rparr>) = facts s"
  "facts (s\<lparr>nextPort := a11\<rparr>) = facts s"
  "facts (s\<lparr>userEnv := a12\<rparr>) = facts s"
  "facts (s\<lparr>microtasks := a13\<rparr>) = facts s"
  "facts (s\<lparr>promises := a14\<rparr>) = facts s"
  by (simp_all add: facts_def opened_def ipcReadySeen_def initDoneSeen_def)

lemma hs_upd [simp]:
  "handshake_inv (s\<lparr>nextPid := a1\<rparr>) = handshake_inv s"
  "handshake_inv (s\<lparr>memo_whenIpcReady := a2\<rparr>) = handshake_inv s"
  "handshake_inv (s\<lparr>memo_whenReady := a3\<rparr>) = handshake_inv s"
  "handshake_inv (s\<lparr>onceIpcReady := a4\<rparr>) = handshake_inv s"
  "handshake_inv (s\<lparr>onceInitDone := a5\<rparr>) = handshake_inv s"
  "handshake_inv (s\<lparr>window := a6\<rparr>) = handshake_inv s"
  "handshake_inv (s\<lparr>windows := a7\<rparr>) = handshake_inv s"
  "handshake_inv (s\<lparr>nextWindowId := a8\<rparr>) = handshake_inv s"
  "handshake_inv (s\<lparr>windowCloseListener := a9\<rparr>) = handshake_inv s"
  "handshake_inv (s\<lparr>timers := a10\<rparr>) = handshake_inv s"
  "handshake_inv (s\<lparr>nextPort := a11\<rparr>) = handshake_inv s"
  "handshake_inv (s\<lparr>userEnv := a12\<rparr>) = handshake_inv s"
  by (simp_all add: handshake_inv_def)

lemma facts_newPid [simp]: "facts (snd (newPid s)) = facts s"
  by (simp add: newPid_def)

lemma hs_newPid [simp]: "handshake_inv (snd (newPid s)) = handshake_inv s"
  by (simp add: newPid_def)

lemma facts_awaitBarrier [simp]: "facts (awaitBarrier k s) = facts s"
  by (simp add: awaitBarrier_def barrier_wait_def facts_def opened_def ipcReadySeen_def initDoneSeen_def)

lemma hs_awaitBarrier:
  "handshake_inv s \<Longrightarrow> isBody k \<Longrightarrow> handshake_inv (awaitBarrier k s)"
  unfolding handshake_inv_def
  apply simp
  apply (cases k; simp)
  apply (auto simp: awaitBarrier_def barrier_wait_def facts_def opened_def)
  done

lemma facts_openBarrier: "facts (openBarrier s) = (True, ipcReadySeen s, initDoneSeen s)"
  by (simp add: openBarrier_def barrier_open_def facts_def opened_def ipcReadySeen_def initDoneSeen_def)

lemma facts_le_openBarrier [simp]: "facts_le (facts s) (facts (openBarrier s))"
  by (simp add: facts_openBarrier) (simp add: facts_def)

lemma hs_openBarrier: "handshake_inv s \<Longrightarrow> handshake_inv (openBarrier s)"
proof -
  assume inv: "handshake_inv s"
  let ?f = "facts s" and ?f' = "facts (openBarrier s)"
  have le: "facts_le ?f ?f'" by simp
  have jobs: "\<forall>(k, out) \<in> set (microtasks (openBarrier s)). jobOk ?f' k out"
  proof (clarify)
    fix k out assume "(k, out) \<in> set (microtasks (openBarrier s))"
    then consider "(k, out) \<in> set (microtasks s)" | "k \<in> set (waiters (whenSpawnedBarrier s))"
      by (auto simp: openBarrier_def barrier_open_def)
    then show "jobOk ?f' k out"
    proof cases
      case 1
      with inv le show ?thesis unfolding handshake_inv_def by (blast intro: jobOk_mono)
    next
      case 2
      with inv have "isBody k" unfolding handshake_inv_def by blast
      then show ?thesis by (cases k) (simp_all add: facts_openBarrier)
    qed
  qed
  have pr: "promises (openBarrier s) = promises s" "trace (openBarrier s) = trace s"
    "waiters (whenSpawnedBarrier (openBarrier s)) = []"
    by (simp_all add: openBarrier_def barrier_open_def)
  show ?thesis
    unfolding handshake_inv_def
    apply (intro conjI)
        apply (rule jobs)
    using inv le unfolding handshake_inv_def pr
       apply (metis reactOk_mono)
    using inv le unfolding handshake_inv_def pr
      apply (metis settledOk_mono)
     apply (simp add: pr)
    using inv le unfolding handshake_inv_def pr
    apply (metis facts_le_top)
    done
qed

lemma facts_whenIpcReady [simp]: "facts (snd (whenIpcReady s)) = facts s"
  by (simp add: whenIpcReady_def split_beta split: option.splits)

lemma hs_whenIpcReady: "handshake_inv s \<Longrightarrow> handshake_inv (snd (whenIpcReady s))"
  by (simp add: whenIpcReady_def split_beta hs_awaitBarrier split: option.splits)

lemma facts_connect [simp]: "facts (snd (connect s)) = facts s"
  by (simp add: connect_def split_beta)

lemma hs_connect: "handshake_inv s \<Longrightarrow> handshake_inv (snd (connect s))"
  by (simp add: connect_def split_beta hs_await hs_whenIpcReady)

lemma hs_toggle: "handshake_inv s \<Longrightarrow> handshake_inv (snd (toggle s))"
  by (simp add: toggle_def split_beta hs_await hs_whenIpcReady)

lemma facts_whenReady [simp]: "facts (snd (whenReady s)) = facts s"
  by (simp add: whenReady_def split_beta split: option.splits)

lemma hs_whenReady: "handshake_inv s \<Longrightarrow> handshake_inv (snd (whenReady s))"
  by (simp add: whenReady_def split_beta hs_emit split: option.splits)

lemma hs_channelRequest: "handshake_inv s \<Longrightarrow> handshake_inv (channelRequest sender nonce s)"
  by (simp add: channelRequest_def split_beta hs_await hs_whenReady hs_emit)

lemma hs_spawn: "handshake_inv s \<Longrightarrow> handshake_inv (spawn env s)"
  by (simp add: spawn_def hs_openBarrier)

lemma facts_createWindow [simp]: "facts (createWindow s) = facts s"
  by (simp add: createWindow_def Let_def)

lemma hs_createWindow: "handshake_inv s \<Longrightarrow> handshake_inv (createWindow s)"
  by (simp add: createWindow_def Let_def hs_emit)

lemma facts_registerWindowListeners [simp]: "facts (registerWindowListeners s) = facts s"
  by (simp add: registerWindowListeners_def split: option.splits)

lemma hs_registerWindowListeners: "handshake_inv s \<Longrightarrow> handshake_inv (registerWindowListeners s)"
  by (simp add: registerWindowListeners_def hs_emit split: option.splits)

lemma hs_ipcAfterBarrier:
  "handshake_inv s \<Longrightarrow> jobOk (facts s) (IpcAfterBarrier p) out \<Longrightarrow> handshake_inv (ipcAfterBarrier p s)"
  by (cases "facts s")
     (simp add: ipcAfterBarrier_def split_beta hs_await hs_emit hs_registerWindowListeners
        hs_createWindow)

lemma hs_ipcAfterSignal:
  "handshake_inv s \<Longrightarrow> jobOk (facts s) (IpcAfterSignal p) out \<Longrightarrow> handshake_inv (ipcAfterSignal p out s)"
  by (cases "facts s") (simp add: ipcAfterSignal_def hs_settle split: outcome.splits)

lemma facts_connectMessagePort [simp]: "facts (snd (connectMessagePort w s)) = facts s"
  by (simp add: connectMessagePort_def)

lemma hs_connectMessagePort: "handshake_inv s \<Longrightarrow> handshake_inv (snd (connectMessagePort w s))"
  by (simp add: connectMessagePort_def hs_emit)

lemma hs_connectAfterIpc:
  "handshake_inv s \<Longrightarrow> jobOk (facts s) (ConnectAfterIpc c) out \<Longrightarrow> handshake_inv (connectAfterIpc c out s)"
  by (cases "facts s")
     (simp add: connectAfterIpc_def split_beta hs_settle hs_connectMessagePort
        split: outcome.splits option.splits)

lemma hs_toggleAfterIpc:
  "handshake_inv s \<Longrightarrow> handshake_inv (toggleAfterIpc t out s)"
  by (simp add: toggleAfterIpc_def hs_settle hs_emit split: outcome.splits option.splits)

lemma hs_handlerAfterReady:
  "handshake_inv s \<Longrightarrow> jobOk (facts s) (HandlerAfterReady sender nonce h) out \<Longrightarrow>
   handshake_inv (handlerAfterReady sender nonce h out s)"
  by (cases "facts s")
     (simp add: handlerAfterReady_def split_beta hs_settle hs_await hs_connect
        split: outcome.splits)

lemma hs_handlerAfterConnect:
  "handshake_inv s \<Longrightarrow> jobOk (facts s) (HandlerAfterConnect sender nonce h) out \<Longrightarrow>
   handshake_inv (handlerAfterConnect sender nonce h out s)"
  by (cases "facts s")
     (simp add: handlerAfterConnect_def hs_settle hs_emit_post split: outcome.splits)

lemma hs_resume:
  "handshake_inv s \<Longrightarrow> jobOk (facts s) k out \<Longrightarrow> handshake_inv (resume k out s)"
  by (cases k)
     (simp_all add: resume_def hs_ipcAfterBarrier hs_ipcAfterSignal hs_connectAfterIpc
        hs_toggleAfterIpc hs_handlerAfterReady hs_handlerAfterConnect)

lemma hs_runMicrotask: "handshake_inv s \<Longrightarrow> handshake_inv (runMicrotask s)"
proof (cases "microtasks s")
  case Nil
  then show "handshake_inv s \<Longrightarrow> ?thesis" by (simp add: runMicrotask_def)
next
  case (Cons j rest)
  assume inv: "handshake_inv s"
  obtain k out where j: "j = (k, out)" by (cases j)
  let ?s = "s\<lparr>microtasks := rest\<rparr>"
  have "handshake_inv ?s"
    by (rule handshake_inv_frame [OF inv]) (simp_all add: Cons subset_iff)
  moreover have "jobOk (facts ?s) k out"
    using inv Cons j by (simp add: handshake_inv_def)
  ultimately show ?thesis
    by (simp add: runMicrotask_def Cons j hs_resume)
qed


lemma hs_ipcReadyListener: "handshake_inv s \<Longrightarrow> handshake_inv (ipcReadyListener q s)"
  by (simp add: ipcReadyListener_def hs_settle hs_emit facts_emit)

lemma hs_initDoneListener: "handshake_inv s \<Longrightarrow> handshake_inv (initDoneListener q s)"
  by (simp add: initDoneListener_def hs_settle hs_emit facts_emit)

lemma hs_callAll:
  "(\<And>q s. handshake_inv s \<Longrightarrow> handshake_inv (f q s)) \<Longrightarrow> handshake_inv s \<Longrightarrow>
   handshake_inv (callAll f qs s)"
  by (induction qs arbitrary: s) simp_all

lemma hs_onIpcReady: "handshake_inv s \<Longrightarrow> handshake_inv (onIpcReady s)"
  by (simp add: onIpcReady_def hs_callAll hs_ipcReadyListener)

lemma hs_onInitDone: "handshake_inv s \<Longrightarrow> handshake_inv (onInitDone s)"
  by (simp add: onInitDone_def hs_callAll hs_initDoneListener)

lemma hs_onWillShutdown: "handshake_inv s \<Longrightarrow> handshake_inv (onWillShutdown s)"
  by (simp add: onWillShutdown_def Let_def hs_emit split: option.splits)

lemma hs_runTimer: "handshake_inv s \<Longrightarrow> handshake_inv (runTimer throws s)"
  by (simp add: runTimer_def shutdownTimeout_def windowClose_def hs_emit split: list.splits)

lemma hs_step: "handshake_inv s \<Longrightarrow> handshake_inv (step e s)"
  by (cases e)
     (simp_all add: hs_spawn hs_connect hs_toggle hs_whenReady hs_channelRequest hs_onIpcReady
        hs_onInitDone hs_onWillShutdown hs_runMicrotask hs_runTimer)

lemma hs_run: "handshake_inv s \<Longrightarrow> handshake_inv (run es s)"
  by (induction es arbitrary: s) (simp_all add: hs_step)

lemma hs_init: "handshake_inv (init mid env svc lvl)"
  by (simp add: handshake_inv_def init_def)

subsection \<open>The window is created at most once\<close>

lemma enqueue_fields [simp]:
  "microtasks (enqueue k out s) = microtasks s @ [(k, out)]"
  "promises (enqueue k out s) = promises s"
  "whenSpawnedBarrier (enqueue k out s) = whenSpawnedBarrier s"
  "trace (enqueue k out s) = trace s"
  "memo_whenIpcReady (enqueue k out s) = memo_whenIpcReady s"
  "memo_whenReady (enqueue k out s) = memo_whenReady s"
  "window (enqueue k out s) = window s"
  "windows (enqueue k out s) = windows s"
  "windowCloseListener (enqueue k out s) = windowCloseListener s"
  "timers (enqueue k out s) = timers s"
  "nextPid (enqueue k out s) = nextPid s"
  "nextPort (enqueue k out s) = nextPort s"
  "nextWindowId (enqueue k out s) = nextWindowId s"
  "onceIpcReady (enqueue k out s) = onceIpcReady s"
  "onceInitDone (enqueue k out s) = onceInitDone s"
  "userEnv (enqueue k out s) = userEnv s"
  by (simp_all add: enqueue_def)

lemma settle_fields [simp]:
  "whenSpawnedBarrier (settle p out s) = whenSpawnedBarrier s"
  "trace (settle p out s) = trace s"
  "memo_whenIpcReady (settle p out s) = memo_whenIpcReady s"
  "memo_whenReady (settle p out s) = memo_whenReady s"
  "window (settle p out s) = window s"
  "windows (settle p out s) = windows s"
  "windowCloseListener (settle p out s) = windowCloseListener s"
  "timers (settle p out s) = timers s"
  "nextPid (settle p out s) = nextPid s"
  "nextPort (settle p out s) = nextPort s"
  "nextWindowId (settle p out s) = nextWindowId s"
  "onceIpcReady (settle p out s) = onceIpcReady s"
  "onceInitDone (settle p out s) = onceInitDone s"
  "userEnv (settle p out s) = userEnv s"
  by (simp_all add: settle_def split: outcome.splits)

lemma await_fields [simp]:
  "whenSpawnedBarrier (await p k s) = whenSpawnedBarrier s"
  "trace (await p k s) = trace s"
  "memo_whenIpcReady (await p k s) = memo_whenIpcReady s"
  "memo_whenReady (await p k s) = memo_whenReady s"
  "window (await p k s) = window s"
  "windows (await p k s) = windows s"
  "windowCloseListener (await p k s) = windowCloseListener s"
  "timers (await p k s) = timers s"
  "nextPid (await p k s) = nextPid s"
  "nextPort (await p k s) = nextPort s"
  "nextWindowId (await p k s) = nextWindowId s"
  "onceIpcReady (await p k s) = onceIpcReady s"
  "onceInitDone (await p k s) = onceInitDone s"
  "userEnv (await p k s) = userEnv s"
  by (simp_all add: await_def split: outcome.splits)

lemma oi_upd [simp]:
  "once_inv (s\<lparr>nextPid := a1\<rparr>) = once_inv s"
  "once_inv (s\<lparr>memo_whenReady := a3\<rparr>) = once_inv s"
  "once_inv (s\<lparr>onceIpcReady := a4\<rparr>) = once_inv s"
  "once_inv (s\<lparr>onceInitDone := a5\<rparr>) = once_inv s"
  "once_inv (s\<lparr>window := a6\<rparr>) = once_inv s"
  "once_inv (s\<lparr>windows := a7\<rparr>) = once_inv s"
  "once_inv (s\<lparr>nextWindowId := a8\<rparr>) = once_inv s"
  "once_inv (s\<lparr>windowCloseListener := a9\<rparr>) = once_inv s"
  "once_inv (s\<lparr>timers := a10\<rparr>) = once_inv s"
  "once_inv (s\<lparr>nextPort := a11\<rparr>) = once_inv s"
  "once_inv (s\<lparr>userEnv := a12\<rparr>) = once_inv s"
  by (simp_all add: once_inv_def pendingBodies_def hostCreations_def
      closeListenerRegistrations_def opened_def noBodyReactions_def)

lemma oi_emit:
  "once_inv s \<Longrightarrow> \<not> isNewWindow e \<Longrightarrow> \<not> isCloseOn e \<Longrightarrow> once_inv (emit e s)"
  by (simp add: once_inv_def pendingBodies_def hostCreations_def
      closeListenerRegistrations_def opened_def noBodyReactions_def)

lemma oi_await:
  "once_inv s \<Longrightarrow> \<not> isBody k \<Longrightarrow> once_inv (await p k s)"
  unfolding once_inv_def pendingBodies_def hostCreations_def
      closeListenerRegistrations_def opened_def noBodyReactions_def
  by (simp) (auto simp: await_def split: outcome.splits)

lemma filter_none: "\<forall>k \<in> set ks. \<not> P k \<Longrightarrow> filter (\<lambda>j. P (fst j)) (map (\<lambda>k. (k, out)) ks) = []"
  by (induction ks) auto

lemma oi_settle:
  "once_inv s \<Longrightarrow> once_inv (settle p out s)"
  unfolding once_inv_def pendingBodies_def hostCreations_def
      closeListenerRegistrations_def opened_def noBodyReactions_def
  by (simp) (auto simp: settle_def filter_none split: outcome.splits)

lemma oi_newPid [simp]: "once_inv (snd (newPid s)) = once_inv s"
  by (simp add: newPid_def)

lemma oi_whenIpcReady: "once_inv s \<Longrightarrow> once_inv (snd (whenIpcReady s))"
  by (auto simp: whenIpcReady_def newPid_def awaitBarrier_def barrier_wait_def
      once_inv_def pendingBodies_def hostCreations_def
      closeListenerRegistrations_def opened_def noBodyReactions_def split: option.splits)

lemma oi_openBarrier: "once_inv s \<Longrightarrow> once_inv (openBarrier s)"
  by (auto simp: openBarrier_def barrier_open_def
      once_inv_def pendingBodies_def hostCreations_def filter_map comp_def
      closeListenerRegistrations_def opened_def noBodyReactions_def split: option.splits)

lemma oi_spawn: "once_inv s \<Longrightarrow> once_inv (spawn env s)"
  by (simp add: spawn_def oi_openBarrier)

lemma oi_connect: "once_inv s \<Longrightarrow> once_inv (snd (connect s))"
  by (simp add: connect_def split_beta oi_await oi_whenIpcReady)

lemma oi_toggle: "once_inv s \<Longrightarrow> once_inv (snd (toggle s))"
  by (simp add: toggle_def split_beta oi_await oi_whenIpcReady)

lemma oi_whenReady: "once_inv s \<Longrightarrow> once_inv (snd (whenReady s))"
  by (simp add: whenReady_def split_beta oi_emit split: option.splits)

lemma oi_channelRequest: "once_inv s \<Longrightarrow> once_inv (channelRequest sender nonce s)"
  by (simp add: channelRequest_def split_beta oi_await oi_whenReady oi_emit)


lemma oi_ipcAfterSignal: "once_inv s \<Longrightarrow> once_inv (ipcAfterSignal p out s)"
  by (simp add: ipcAfterSignal_def oi_settle split: outcome.splits)

lemma oi_connectAfterIpc: "once_inv s \<Longrightarrow> once_inv (connectAfterIpc c out s)"
  by (simp add: connectAfterIpc_def connectMessagePort_def oi_settle oi_emit
      split: outcome.splits option.splits)

lemma oi_toggleAfterIpc: "once_inv s \<Longrightarrow> once_inv (toggleAfterIpc t out s)"
  by (simp add: toggleAfterIpc_def oi_settle oi_emit split: outcome.splits option.splits)

lemma oi_handlerAfterReady: "once_inv s \<Longrightarrow> once_inv (handlerAfterReady sender nonce h out s)"
  by (simp add: handlerAfterReady_def split_beta oi_settle oi_await oi_connect
      split: outcome.splits)

lemma oi_handlerAfterConnect: "once_inv s \<Longrightarrow> once_inv (handlerAfterConnect sender nonce h out s)"
  by (simp add: handlerAfterConnect_def oi_settle oi_emit split: outcome.splits)

lemma createWindow_fields [simp]:
  "microtasks (createWindow s) = microtasks s"
  "promises (createWindow s) = promises s"
  "whenSpawnedBarrier (createWindow s) = whenSpawnedBarrier s"
  "trace (createWindow s) = trace s @ [NewBrowserWindow (nextWindowId s), LoadURL (nextWindowId s)]"
  "memo_whenIpcReady (createWindow s) = memo_whenIpcReady s"
  "memo_whenReady (createWindow s) = memo_whenReady s"
  "window (createWindow s) = Some (nextWindowId s)"
  "windowCloseListener (createWindow s) = windowCloseListener s"
  "timers (createWindow s) = timers s"
  "nextPid (createWindow s) = nextPid s"
  "nextPort (createWindow s) = nextPort s"
  "nextWindowId (createWindow s) = Suc (nextWindowId s)"
  "onceIpcReady (createWindow s) = onceIpcReady s"
  "onceInitDone (createWindow s) = onceInitDone s"
  "userEnv (createWindow s) = userEnv s"
  by (simp_all add: createWindow_def Let_def)

lemma registerWindowListeners_fields [simp]:
  "microtasks (registerWindowListeners s) = microtasks s"
  "promises (registerWindowListeners s) = promises s"
  "whenSpawnedBarrier (registerWindowListeners s) = whenSpawnedBarrier s"
  "memo_whenIpcReady (registerWindowListeners s) = memo_whenIpcReady s"
  "memo_whenReady (registerWindowListeners s) = memo_whenReady s"
  "window (registerWindowListeners s) = window s"
  "timers (registerWindowListeners s) = timers s"
  "nextPid (registerWindowListeners s) = nextPid s"
  "nextPort (registerWindowListeners s) = nextPort s"
  "nextWindowId (registerWindowListeners s) = nextWindowId s"
  "onceIpcReady (registerWindowListeners s) = onceIpcReady s"
  "onceInitDone (registerWindowListeners s) = onceInitDone s"
  "userEnv (registerWindowListeners s) = userEnv s"
  by (simp_all add: registerWindowListeners_def split: option.splits)

lemma registerWindowListeners_trace:
  "window s = Some w \<Longrightarrow>
   trace (registerWindowListeners s) =
     trace s @ [WindowOn w ''close'', WebContentsOn w ''render-process-gone'',
                WindowOn w ''unresponsive'', WebContentsOn w ''did-fail-load'']"
  by (simp add: registerWindowListeners_def)

lemma oi_ipcAfterBarrier:
  assumes "once_inv s" and "microtasks s = (IpcAfterBarrier p, out) # rest"
  shows "once_inv (ipcAfterBarrier p (s\<lparr>microtasks := rest\<rparr>))"
proof -
  let ?s0 = "s\<lparr>microtasks := rest\<rparr>"
  let ?s1 = "registerWindowListeners (createWindow ?s0)"
  let ?s2 = "emit (IpcMainOnce ch_ipc_ready)
               (?s1\<lparr>nextPid := Suc (nextPid ?s1), onceIpcReady := onceIpcReady ?s1 @ [nextPid ?s1]\<rparr>)"
  have tr: "trace ?s1 = trace s @ [NewBrowserWindow (nextWindowId s), LoadURL (nextWindowId s),
      WindowOn (nextWindowId s) ''close'', WebContentsOn (nextWindowId s) ''render-process-gone'',
      WindowOn (nextWindowId s) ''unresponsive'', WebContentsOn (nextWindowId s) ''did-fail-load'']"
    by (simp add: registerWindowListeners_trace)
  have "once_inv ?s1"
    using assms
    by (simp add: once_inv_def pendingBodies_def hostCreations_def tr
        closeListenerRegistrations_def opened_def noBodyReactions_def split: option.splits)
  then have "once_inv ?s2" by (simp add: oi_emit)
  then show ?thesis
    by (simp add: ipcAfterBarrier_def newPid_def oi_await)
qed

lemma oi_resume_other:
  "once_inv s \<Longrightarrow> \<not> isBody k \<Longrightarrow> once_inv (resume k out s)"
  by (cases k)
     (simp_all add: resume_def oi_ipcAfterSignal oi_connectAfterIpc oi_toggleAfterIpc
        oi_handlerAfterReady oi_handlerAfterConnect)

lemma oi_runMicrotask: "once_inv s \<Longrightarrow> once_inv (runMicrotask s)"
proof (cases "microtasks s")
  case Nil
  then show "once_inv s \<Longrightarrow> ?thesis" by (simp add: runMicrotask_def)
next
  case (Cons j rest)
  assume inv: "once_inv s"
  obtain k out where j: "j = (k, out)" by (cases j)
  show ?thesis
  proof (cases "isBody k")
    case True
    then obtain p where k: "k = IpcAfterBarrier p" by (cases k) simp_all
    show ?thesis
      using oi_ipcAfterBarrier [OF inv, of p out rest] Cons j k
      by (simp add: runMicrotask_def resume_def)
  next
    case False
    have "once_inv (s\<lparr>microtasks := rest\<rparr>)"
      using inv Cons j False
      by (simp add: once_inv_def pendingBodies_def hostCreations_def
        closeListenerRegistrations_def opened_def noBodyReactions_def)
    then show ?thesis
      using False by (simp add: runMicrotask_def Cons j oi_resume_other)
  qed
qed

lemma oi_callAll:
  "(\<And>q s. once_inv s \<Longrightarrow> once_inv (f q s)) \<Longrightarrow> once_inv s \<Longrightarrow> once_inv (callAll f qs s)"
  by (induction qs arbitrary: s) simp_all

lemma oi_onIpcReady: "once_inv s \<Longrightarrow> once_inv (onIpcReady s)"
  by (simp add: onIpcReady_def ipcReadyListener_def oi_callAll oi_settle oi_emit)

lemma oi_onInitDone: "once_inv s \<Longrightarrow> once_inv (onInitDone s)"
  by (simp add: onInitDone_def initDoneListener_def oi_callAll oi_settle oi_emit)

lemma oi_onWillShutdown: "once_inv s \<Longrightarrow> once_inv (onWillShutdown s)"
  by (simp add: onWillShutdown_def Let_def oi_emit split: option.splits)

lemma oi_runTimer: "once_inv s \<Longrightarrow> once_inv (runTimer throws s)"
  by (simp add: runTimer_def shutdownTimeout_def windowClose_def oi_emit split: list.splits)

lemma oi_step: "once_inv s \<Longrightarrow> once_inv (step e s)"
  by (cases e)
     (simp_all add: oi_spawn oi_connect oi_toggle oi_whenReady oi_channelRequest oi_onIpcReady
        oi_onInitDone oi_onWillShutdown oi_runMicrotask oi_runTimer)

lemma oi_run: "once_inv s \<Longrightarrow> once_inv (run es s)"
  by (induction es arbitrary: s) (simp_all add: oi_step)

lemma oi_init: "once_inv (init mid env svc lvl)"
  by (simp add: once_inv_def init_def pendingBodies_def hostCreations_def
        closeListenerRegistrations_def opened_def noBodyReactions_def)

lemma once_reachable: "once_inv (run es (init mid env svc lvl))"
  by (simp add: oi_run oi_init)

lemma once_count_le: "once_inv s \<Longrightarrow> hostCreations s \<le> 1"
  by (auto simp: once_inv_def split: option.splits)

lemma once_count_eq:
  "once_inv s \<Longrightarrow> memo_whenIpcReady s \<noteq> None \<Longrightarrow> opened s \<Longrightarrow> microtasks s = [] \<Longrightarrow>
   hostCreations s = 1"
  by (auto simp: once_inv_def pendingBodies_def split: option.splits)

subsection \<open>Shutdown and spawn\<close>

lemma window_after_timer:
  "window (runTimer throws (onWillShutdown s)) = None"
  by (cases "window s"; cases "timers s")
     (simp_all add: runTimer_def onWillShutdown_def shutdownTimeout_def windowClose_def Let_def
        split: list.splits)

lemma onWillShutdown_no_window: "window s = None \<Longrightarrow> onWillShutdown s = s"
  by (simp add: onWillShutdown_def)

lemma userEnv_spawn [simp]: "userEnv (spawn e s) = userEnv s ++ e"
  by (simp add: spawn_def openBarrier_def barrier_open_def)

lemma last_overlay_wins:
  "envs \<noteq> [] \<Longrightarrow> last envs k = Some v \<Longrightarrow> foldl (++) m envs k = Some v"
  by (induction envs rule: rev_induct) (simp_all add: map_add_Some_iff)

lemma spawn_fields [simp]:
  "promises (spawn e s) = promises s"
  "trace (spawn e s) = trace s"
  "memo_whenIpcReady (spawn e s) = memo_whenIpcReady s"
  "memo_whenReady (spawn e s) = memo_whenReady s"
  "window (spawn e s) = window s"
  "windows (spawn e s) = windows s"
  "windowCloseListener (spawn e s) = windowCloseListener s"
  "timers (spawn e s) = timers s"
  "nextPid (spawn e s) = nextPid s"
  "nextPort (spawn e s) = nextPort s"
  "nextWindowId (spawn e s) = nextWindowId s"
  "onceIpcReady (spawn e s) = onceIpcReady s"
  "onceInitDone (spawn e s) = onceInitDone s"
  "whenSpawnedBarrier (spawn e s) = \<lparr>isOpen = True, waiters = []\<rparr>"
  "microtasks (spawn e s) =
     microtasks s @ map (\<lambda>k. (k, Fulfilled VTrue)) (waiters (whenSpawnedBarrier s))"
  by (simp_all add: spawn_def openBarrier_def barrier_open_def)

lemma spawns_fields:
  "nextWindowId (run (map Spawn envs) s) = nextWindowId s"
  "envs \<noteq> [] \<Longrightarrow> whenSpawnedBarrier (run (map Spawn envs) s) = \<lparr>isOpen = True, waiters = []\<rparr>"
  "envs \<noteq> [] \<Longrightarrow> microtasks (run (map Spawn envs) s) =
     microtasks s @ map (\<lambda>k. (k, Fulfilled VTrue)) (waiters (whenSpawnedBarrier s))"
proof -
  show "nextWindowId (run (map Spawn envs) s) = nextWindowId s"
    by (induction envs arbitrary: s) simp_all
  show "envs \<noteq> [] \<Longrightarrow> whenSpawnedBarrier (run (map Spawn envs) s) = \<lparr>isOpen = True, waiters = []\<rparr>"
    by (induction envs arbitrary: s) (simp, case_tac envs, simp_all)
  show "envs \<noteq> [] \<Longrightarrow> microtasks (run (map Spawn envs) s) =
     microtasks s @ map (\<lambda>k. (k, Fulfilled VTrue)) (waiters (whenSpawnedBarrier s))"
  proof (induction envs arbitrary: s)
    case Nil then show ?case by simp
  next
    case (Cons e es)
    show ?case
    proof (cases es)
      case Nil then show ?thesis by simp
    next
      case (Cons e' es')
      then have "es \<noteq> []" by simp
      from Cons.IH [OF this, of "spawn e s"] show ?thesis by simp
    qed
  qed
qed

lemma ipcAfterBarrier_payload:
  "window (ipcAfterBarrier p s) = Some (nextWindowId s) \<and>
   map_option cfg_userEnv (loadedConfig (windows (ipcAfterBarrier p s) (nextWindowId s))) =
     Some (userEnv s)"
  by (simp add: ipcAfterBarrier_def newPid_def registerWindowListeners_def createWindow_def Let_def)

subsection \<open>The gate stays open\<close>

lemma opened_prims [simp]:
  "opened (emit e s) = opened s"
  "opened (enqueue k out s) = opened s"
  "opened (settle p out s) = opened s"
  "opened (await p k s) = opened s"
  "opened (awaitBarrier k s) = opened s"
  "opened (snd (newPid s)) = opened s"
  "opened (createWindow s) = opened s"
  "opened (registerWindowListeners s) = opened s"
  "opened (snd (connectMessagePort w s)) = opened s"
  by (simp_all add: opened_def awaitBarrier_def barrier_wait_def newPid_def connectMessagePort_def)

lemma opened_upd [simp]:
  "opened (s\<lparr>nextPid := a1\<rparr>) = opened s"
  "opened (s\<lparr>memo_whenIpcReady := a2\<rparr>) = opened s"
  "opened (s\<lparr>memo_whenReady := a3\<rparr>) = opened s"
  "opened (s\<lparr>onceIpcReady := a4\<rparr>) = opened s"
  "opened (s\<lparr>onceInitDone := a5\<rparr>) = opened s"
  "opened (s\<lparr>window := a6\<rparr>) = opened s"
  "opened (s\<lparr>windows := a7\<rparr>) = opened s"
  "opened (s\<lparr>nextWindowId := a8\<rparr>) = opened s"
  "opened (s\<lparr>windowCloseListener := a9\<rparr>) = opened s"
  "opened (s\<lparr>timers := a10\<rparr>) = opened s"
  "opened (s\<lparr>nextPort := a11\<rparr>) = opened s"
  "opened (s\<lparr>userEnv := a12\<rparr>) = opened s"
  "opened (s\<lparr>microtasks := a13\<rparr>) = opened s"
  "opened (s\<lparr>promises := a14\<rparr>) = opened s"
  by (simp_all add: opened_def)

lemma opened_whenIpcReady [simp]: "opened (snd (whenIpcReady s)) = opened s"
  by (simp add: whenIpcReady_def split_beta split: option.splits)

lemma opened_connect [simp]: "opened (snd (connect s)) = opened s"
  by (simp add: connect_def split_beta)

lemma opened_toggle [simp]: "opened (snd (toggle s)) = opened s"
  by (simp add: toggle_def split_beta)

lemma opened_whenReady [simp]: "opened (snd (whenReady s)) = opened s"
  by (simp add: whenReady_def split_beta split: option.splits)

lemma opened_channelRequest [simp]: "opened (channelRequest sender nonce s) = opened s"
  by (simp add: channelRequest_def split_beta)

lemma opened_resume [simp]: "opened (resume k out s) = opened s"
  by (cases k)
     (simp_all add: resume_def ipcAfterBarrier_def ipcAfterSignal_def connectAfterIpc_def
        toggleAfterIpc_def handlerAfterReady_def handlerAfterConnect_def split_beta
        split: outcome.splits option.splits)

lemma opened_callAll:
  "(\<And>q s. opened (f q s) = opened s) \<Longrightarrow> opened (callAll f qs s) = opened s"
  by (induction qs arbitrary: s) simp_all

lemma opened_messages [simp]:
  "opened (onIpcReady s) = opened s" "opened (onInitDone s) = opened s"
  by (simp_all add: onIpcReady_def onInitDone_def opened_callAll ipcReadyListener_def
      initDoneListener_def)

lemma opened_shutdown [simp]:
  "opened (onWillShutdown s) = opened s" "opened (runTimer throws s) = opened s"
  by (simp_all add: onWillShutdown_def Let_def runTimer_def shutdownTimeout_def windowClose_def
      split: option.splits list.splits)

lemma opened_spawn [simp]: "opened (spawn env s)"
  by (simp add: opened_def)

lemma opened_step: "opened s \<Longrightarrow> opened (step e s)"
  by (cases e) (simp_all add: runMicrotask_def split: list.splits)

lemma opened_run: "opened s \<Longrightarrow> opened (run es s)"
  by (induction es arbitrary: s) (simp_all add: opened_step)

subsection \<open>The channel-request listener\<close>

lemma hs_reachable: "handshake_inv (run es (init mid env svc lvl))"
  by (simp add: hs_run hs_init)

lemma whenReady_frame:
  "whenSpawnedBarrier (snd (whenReady s)) = whenSpawnedBarrier s"
  "window (snd (whenReady s)) = window s"
  "windows (snd (whenReady s)) = windows s"
  "nextWindowId (snd (whenReady s)) = nextWindowId s"
  "memo_whenIpcReady (snd (whenReady s)) = memo_whenIpcReady s"
  "microtasks (snd (whenReady s)) = microtasks s"
  "promises (snd (whenReady s)) = promises s"
  "hostCreations (snd (whenReady s)) = hostCreations s"
  by (simp_all add: whenReady_def newPid_def hostCreations_def split: option.splits)

lemma channelRequest_frame:
  "whenSpawnedBarrier (channelRequest sender nonce s) = whenSpawnedBarrier s"
  "memo_whenIpcReady (channelRequest sender nonce s) = memo_whenIpcReady s"
  "nextWindowId (channelRequest sender nonce s) = nextWindowId s"
  "nextPort (channelRequest sender nonce s) = nextPort s"
  by (simp_all add: channelRequest_def split_beta whenReady_def newPid_def split: option.splits)

subsection \<open>Ports are not handed out twice\<close>

lemma pi_upd [simp]:
  "ports_inv (s\<lparr>nextPid := a1\<rparr>) = ports_inv s"
  "ports_inv (s\<lparr>memo_whenIpcReady := a2\<rparr>) = ports_inv s"
  "ports_inv (s\<lparr>memo_whenReady := a3\<rparr>) = ports_inv s"
  "ports_inv (s\<lparr>onceIpcReady := a4\<rparr>) = ports_inv s"
  "ports_inv (s\<lparr>onceInitDone := a5\<rparr>) = ports_inv s"
  "ports_inv (s\<lparr>window := a6\<rparr>) = ports_inv s"
  "ports_inv (s\<lparr>windows := a7\<rparr>) = ports_inv s"
  "ports_inv (s\<lparr>nextWindowId := a8\<rparr>) = ports_inv s"
  "ports_inv (s\<lparr>windowCloseListener := a9\<rparr>) = ports_inv s"
  "ports_inv (s\<lparr>timers := a10\<rparr>) = ports_inv s"
  "ports_inv (s\<lparr>userEnv := a12\<rparr>) = ports_inv s"
  "ports_inv (s\<lparr>microtasks := a13\<rparr>) = ports_inv s"
  "ports_inv (s\<lparr>whenSpawnedBarrier := a14\<rparr>) = ports_inv s"
  by (simp_all add: ports_inv_def)

lemma await_outcome [simp]: "outcome (promises (await p k s) q) = outcome (promises s q)"
  by (simp add: await_def split: outcome.splits)

lemma nextPort_openBarrier [simp]: "nextPort (openBarrier s) = nextPort s"
  "promises (openBarrier s) = promises s"
  by (simp_all add: openBarrier_def barrier_open_def)

lemma nextPort_awaitBarrier [simp]: "nextPort (awaitBarrier k s) = nextPort s"
  "promises (awaitBarrier k s) = promises s"
  by (simp_all add: awaitBarrier_def barrier_wait_def)

lemma pi_prims [simp]:
  "ports_inv (emit e s) = ports_inv s"
  "ports_inv (enqueue k out s) = ports_inv s"
  "ports_inv (await p k s) = ports_inv s"
  "ports_inv (awaitBarrier k s) = ports_inv s"
  "ports_inv (openBarrier s) = ports_inv s"
  "ports_inv (snd (newPid s)) = ports_inv s"
  "ports_inv (createWindow s) = ports_inv s"
  "ports_inv (registerWindowListeners s) = ports_inv s"
  by (simp_all add: ports_inv_def newPid_def)

lemma pi_settle:
  "ports_inv s \<Longrightarrow>
   (\<And>d port. p = PConnect d \<Longrightarrow> out = Fulfilled (VPort port) \<Longrightarrow> port < nextPort s) \<Longrightarrow>
   ports_inv (settle p out s)"
  by (auto simp: ports_inv_def settle_def split: outcome.splits)

lemma pi_whenIpcReady: "ports_inv (snd (whenIpcReady s)) = ports_inv s"
  by (simp add: whenIpcReady_def split_beta split: option.splits)

lemma pi_connect: "ports_inv (snd (connect s)) = ports_inv s"
  by (simp add: connect_def split_beta pi_whenIpcReady)

lemma pi_toggle: "ports_inv (snd (toggle s)) = ports_inv s"
  by (simp add: toggle_def split_beta pi_whenIpcReady)

lemma pi_whenReady: "ports_inv (snd (whenReady s)) = ports_inv s"
  by (simp add: whenReady_def split_beta split: option.splits)

lemma pi_channelRequest: "ports_inv (channelRequest sender nonce s) = ports_inv s"
  by (simp add: channelRequest_def split_beta pi_whenReady)

lemma pi_spawn: "ports_inv (spawn env s) = ports_inv s"
  by (simp add: spawn_def)

lemma pi_connectMessagePort:
  "ports_inv s \<Longrightarrow> ports_inv (snd (connectMessagePort w s))"
  by (auto simp: connectMessagePort_def ports_inv_def less_Suc_eq)

lemma nextPort_connectMessagePort [simp]:
  "nextPort (snd (connectMessagePort w s)) = Suc (nextPort s)"
  "fst (connectMessagePort w s) = nextPort s"
  by (simp_all add: connectMessagePort_def)

lemma pi_resume: "ports_inv s \<Longrightarrow> ports_inv (resume k out s)"
  by (cases k)
     (auto simp: resume_def ipcAfterBarrier_def ipcAfterSignal_def connectAfterIpc_def
        toggleAfterIpc_def handlerAfterReady_def handlerAfterConnect_def split_beta pi_connect
        pi_connectMessagePort
        split: outcome.splits option.splits intro!: pi_settle)

lemma pi_runMicrotask: "ports_inv s \<Longrightarrow> ports_inv (runMicrotask s)"
  by (simp add: runMicrotask_def pi_resume split: list.splits)

lemma pi_callAll:
  "(\<And>q s. ports_inv s \<Longrightarrow> ports_inv (f q s)) \<Longrightarrow> ports_inv s \<Longrightarrow> ports_inv (callAll f qs s)"
  by (induction qs arbitrary: s) simp_all

lemma pi_messages:
  "ports_inv s \<Longrightarrow> ports_inv (onIpcReady s)" "ports_inv s \<Longrightarrow> ports_inv (onInitDone s)"
proof -
  show "ports_inv s \<Longrightarrow> ports_inv (onIpcReady s)"
    unfolding onIpcReady_def
    by (rule pi_callAll) (auto simp: ipcReadyListener_def intro!: pi_settle)
  show "ports_inv s \<Longrightarrow> ports_inv (onInitDone s)"
    unfolding onInitDone_def
    by (rule pi_callAll) (auto simp: initDoneListener_def intro!: pi_settle)
qed

lemma pi_shutdown:
  "ports_inv (onWillShutdown s) = ports_inv s" "ports_inv (runTimer throws s) = ports_inv s"
  by (simp_all add: onWillShutdown_def Let_def runTimer_def shutdownTimeout_def windowClose_def
      split: option.splits list.splits)

lemma pi_step: "ports_inv s \<Longrightarrow> ports_inv (step e s)"
  by (cases e)
     (simp_all add: pi_spawn pi_connect pi_toggle pi_whenReady pi_channelRequest pi_messages
        pi_shutdown pi_runMicrotask)

lemma pi_run: "ports_inv s \<Longrightarrow> ports_inv (run es s)"
  by (induction es arbitrary: s) (simp_all add: pi_step)

lemma pi_reachable: "ports_inv (run es (init mid env svc lvl))"
  by (rule pi_run) (simp add: ports_inv_def init_def)

lemma settle_pending:
  "outcome (promises s p) = Pending \<Longrightarrow> outcome (promises (settle p out s) p) = out"
  by (simp add: settle_def)

subsection \<open>The veto is removed before a close is scheduled\<close>

lemma vi_upd [simp]:
  "veto_inv (s\<lparr>nextPid := a1\<rparr>) = veto_inv s"
  "veto_inv (s\<lparr>memo_whenIpcReady := a2\<rparr>) = veto_inv s"
  "veto_inv (s\<lparr>memo_whenReady := a3\<rparr>) = veto_inv s"
  "veto_inv (s\<lparr>onceIpcReady := a4\<rparr>) = veto_inv s"
  "veto_inv (s\<lparr>onceInitDone := a5\<rparr>) = veto_inv s"
  "veto_inv (s\<lparr>nextWindowId := a8\<rparr>) = veto_inv s"
  "veto_inv (s\<lparr>nextPort := a11\<rparr>) = veto_inv s"
  "veto_inv (s\<lparr>userEnv := a12\<rparr>) = veto_inv s"
  "veto_inv (s\<lparr>microtasks := a13\<rparr>) = veto_inv s"
  "veto_inv (s\<lparr>promises := a14\<rparr>) = veto_inv s"
  "veto_inv (s\<lparr>whenSpawnedBarrier := a15\<rparr>) = veto_inv s"
  by (simp_all add: veto_inv_def)

lemma barrier_ops_fields [simp]:
  "window (openBarrier s) = window s" "windows (openBarrier s) = windows s"
  "windowCloseListener (openBarrier s) = windowCloseListener s"
  "trace (openBarrier s) = trace s" "timers (openBarrier s) = timers s"
  "window (awaitBarrier k s) = window s" "windows (awaitBarrier k s) = windows s"
  "windowCloseListener (awaitBarrier k s) = windowCloseListener s"
  "trace (awaitBarrier k s) = trace s" "timers (awaitBarrier k s) = timers s"
  by (simp_all add: openBarrier_def barrier_open_def awaitBarrier_def barrier_wait_def)

lemma vi_prims [simp]:
  "veto_inv (enqueue k out s) = veto_inv s"
  "veto_inv (await p k s) = veto_inv s"
  "veto_inv (settle p out s) = veto_inv s"
  "veto_inv (awaitBarrier k s) = veto_inv s"
  "veto_inv (openBarrier s) = veto_inv s"
  "veto_inv (snd (newPid s)) = veto_inv s"
  by (simp_all add: veto_inv_def newPid_def)

lemma vi_emit: "veto_inv s \<Longrightarrow> veto_inv (emit e s)"
  by (auto simp: veto_inv_def split: if_splits)

lemma vi_whenIpcReady [simp]: "veto_inv (snd (whenIpcReady s)) = veto_inv s"
  by (simp add: whenIpcReady_def split_beta split: option.splits)

lemma vi_connect [simp]: "veto_inv (snd (connect s)) = veto_inv s"
  by (simp add: connect_def split_beta)

lemma vi_toggle [simp]: "veto_inv (snd (toggle s)) = veto_inv s"
  by (simp add: toggle_def split_beta)

lemma vi_whenReady: "veto_inv s \<Longrightarrow> veto_inv (snd (whenReady s))"
  by (simp add: whenReady_def split_beta vi_emit split: option.splits)

lemma vi_channelRequest: "veto_inv s \<Longrightarrow> veto_inv (channelRequest sender nonce s)"
  by (simp add: channelRequest_def split_beta vi_whenReady vi_emit)

lemma vi_spawn [simp]: "veto_inv (spawn env s) = veto_inv s"
  by (simp add: spawn_def)

lemma vi_create_register: "veto_inv s \<Longrightarrow> veto_inv (registerWindowListeners (createWindow s))"
  by (auto simp: veto_inv_def registerWindowListeners_def createWindow_def Let_def emit_def)

lemma vi_ipcAfterBarrier: "veto_inv s \<Longrightarrow> veto_inv (ipcAfterBarrier p s)"
  by (simp add: ipcAfterBarrier_def newPid_def vi_emit vi_create_register)

lemma vi_toggleAfterIpc: "veto_inv s \<Longrightarrow> veto_inv (toggleAfterIpc t out s)"
  by (auto simp: toggleAfterIpc_def veto_inv_def split: outcome.splits option.splits if_splits)

lemma vi_connectAfterIpc: "veto_inv s \<Longrightarrow> veto_inv (connectAfterIpc c out s)"
  by (simp add: connectAfterIpc_def connectMessagePort_def vi_emit
      split: outcome.splits option.splits)

lemma vi_resume: "veto_inv s \<Longrightarrow> veto_inv (resume k out s)"
  by (cases k)
     (simp_all add: resume_def vi_ipcAfterBarrier ipcAfterSignal_def vi_connectAfterIpc
        vi_toggleAfterIpc handlerAfterReady_def handlerAfterConnect_def split_beta vi_emit
        split: outcome.splits)

lemma vi_runMicrotask: "veto_inv s \<Longrightarrow> veto_inv (runMicrotask s)"
  by (simp add: runMicrotask_def vi_resume split: list.splits)

lemma vi_callAll:
  "(\<And>q s. veto_inv s \<Longrightarrow> veto_inv (f q s)) \<Longrightarrow> veto_inv s \<Longrightarrow> veto_inv (callAll f qs s)"
  by (induction qs arbitrary: s) simp_all

lemma vi_messages:
  "veto_inv s \<Longrightarrow> veto_inv (onIpcReady s)" "veto_inv s \<Longrightarrow> veto_inv (onInitDone s)"
proof -
  show "veto_inv s \<Longrightarrow> veto_inv (onIpcReady s)"
    unfolding onIpcReady_def
    by (rule vi_callAll) (simp_all add: ipcReadyListener_def vi_emit)
  show "veto_inv s \<Longrightarrow> veto_inv (onInitDone s)"
    unfolding onInitDone_def
    by (rule vi_callAll) (simp_all add: initDoneListener_def vi_emit)
qed

lemma vi_onWillShutdown: "veto_inv s \<Longrightarrow> veto_inv (onWillShutdown s)"
  by (auto simp: onWillShutdown_def Let_def veto_inv_def split: option.splits if_splits)

lemma vi_runTimer: "veto_inv s \<Longrightarrow> veto_inv (runTimer throws s)"
  by (auto simp: runTimer_def shutdownTimeout_def windowClose_def veto_inv_def split: list.splits)

lemma vi_step: "veto_inv s \<Longrightarrow> veto_inv (step e s)"
  by (cases e)
     (simp_all add: vi_whenReady vi_channelRequest vi_messages vi_onWillShutdown vi_runMicrotask
        vi_runTimer, simp add: veto_inv_def)

lemma vi_run: "veto_inv s \<Longrightarrow> veto_inv (run es s)"
  by (induction es arbitrary: s) (simp_all add: vi_step)

lemma vi_reachable: "veto_inv (run es (init mid env svc lvl))"
  by (rule vi_run) (simp add: veto_inv_def init_def)

lemma onWillShutdown_live:
  assumes "veto_inv s" "window s = Some w" "\<not> contentsDestroyed (windows s w)"
  shows "closeListeners (windows (onWillShutdown s) w) = 0"
    "\<not> windowCloseListener (onWillShutdown s)"
    "WindowRemoveListener w ''close'' \<in> set (trace (onWillShutdown s))"
    "WebContentsSend w ch_exit \<in> set (trace (onWillShutdown s))"
    "timers (onWillShutdown s) = timers s @ [w]"
    "window (onWillShutdown s) = Some w"
    "windowCloseListener s \<longrightarrow> trace (onWillShutdown s) =
       trace s @ [WebContentsSend w ch_exit, WindowRemoveListener w ''close'', SetTimeout w]"
  using assms
  by (auto simp: onWillShutdown_def Let_def veto_inv_def split: if_splits)

lemma shutdownTimeout_result:
  "fst (shutdownTimeout throws w s) = None"
  "window (snd (shutdownTimeout throws w s)) = None"
  "trace (snd (shutdownTimeout throws w s)) = trace s @ [WindowClose w]"
  "windows (snd (shutdownTimeout throws w s)) = windows s"
  by (simp_all add: shutdownTimeout_def windowClose_def)

subsection \<open>An observed ipc-ready message settles the milestone\<close>

lemmas sg_defs = signal_inv_def owner_inv_def ipc_progress_def listening_def ipcReadySeen_def

lemma sg_upd [simp]:
  "signal_inv (s\<lparr>nextPid := a1\<rparr>) = signal_inv s"
  "signal_inv (s\<lparr>memo_whenReady := a3\<rparr>) = signal_inv s"
  "signal_inv (s\<lparr>onceInitDone := a5\<rparr>) = signal_inv s"
  "signal_inv (s\<lparr>window := a6\<rparr>) = signal_inv s"
  "signal_inv (s\<lparr>windows := a7\<rparr>) = signal_inv s"
  "signal_inv (s\<lparr>nextWindowId := a8\<rparr>) = signal_inv s"
  "signal_inv (s\<lparr>windowCloseListener := a9\<rparr>) = signal_inv s"
  "signal_inv (s\<lparr>timers := a10\<rparr>) = signal_inv s"
  "signal_inv (s\<lparr>nextPort := a11\<rparr>) = signal_inv s"
  "signal_inv (s\<lparr>userEnv := a12\<rparr>) = signal_inv s"
  by (simp_all add: sg_defs)

lemma ow_upd [simp]:
  "owner_inv (s\<lparr>nextPid := a1\<rparr>) = owner_inv s"
  "owner_inv (s\<lparr>memo_whenReady := a3\<rparr>) = owner_inv s"
  "owner_inv (s\<lparr>onceInitDone := a5\<rparr>) = owner_inv s"
  "owner_inv (s\<lparr>onceIpcReady := a4\<rparr>) = owner_inv s"
  "owner_inv (s\<lparr>window := a6\<rparr>) = owner_inv s"
  "owner_inv (s\<lparr>windows := a7\<rparr>) = owner_inv s"
  "owner_inv (s\<lparr>nextWindowId := a8\<rparr>) = owner_inv s"
  "owner_inv (s\<lparr>windowCloseListener := a9\<rparr>) = owner_inv s"
  "owner_inv (s\<lparr>timers := a10\<rparr>) = owner_inv s"
  "owner_inv (s\<lparr>nextPort := a11\<rparr>) = owner_inv s"
  "owner_inv (s\<lparr>userEnv := a12\<rparr>) = owner_inv s"
  "owner_inv (s\<lparr>trace := a13\<rparr>) = owner_inv s"
  by (simp_all add: owner_inv_def)

lemma pr_upd [simp]:
  "ipc_progress (s\<lparr>nextPid := a1\<rparr>) = ipc_progress s"
  "ipc_progress (s\<lparr>memo_whenReady := a3\<rparr>) = ipc_progress s"
  "ipc_progress (s\<lparr>onceInitDone := a5\<rparr>) = ipc_progress s"
  "ipc_progress (s\<lparr>onceIpcReady := a4\<rparr>) = ipc_progress s"
  "ipc_progress (s\<lparr>window := a6\<rparr>) = ipc_progress s"
  "ipc_progress (s\<lparr>windows := a7\<rparr>) = ipc_progress s"
  "ipc_progress (s\<lparr>nextWindowId := a8\<rparr>) = ipc_progress s"
  "ipc_progress (s\<lparr>windowCloseListener := a9\<rparr>) = ipc_progress s"
  "ipc_progress (s\<lparr>timers := a10\<rparr>) = ipc_progress s"
  "ipc_progress (s\<lparr>nextPort := a11\<rparr>) = ipc_progress s"
  "ipc_progress (s\<lparr>userEnv := a12\<rparr>) = ipc_progress s"
  "ipc_progress (s\<lparr>trace := a13\<rparr>) = ipc_progress s"
  "ipc_progress (s\<lparr>whenSpawnedBarrier := a14\<rparr>) = ipc_progress s"
  by (simp_all add: ipc_progress_def)

lemma sg_from_progress: "owner_inv s \<Longrightarrow> ipc_progress s \<Longrightarrow> signal_inv s"
  by (simp add: signal_inv_def)

lemma msg_ipc_ready_neq [simp]:
  "msg_ipc_ready \<noteq> msg_channel_request"
  by (simp add: msg_ipc_ready_def msg_channel_request_def)

lemma sg_emit: "e \<noteq> Trace msg_ipc_ready \<Longrightarrow> signal_inv (emit e s) = signal_inv s"
  by (auto simp: sg_defs)

lemma ow_emit [simp]: "owner_inv (emit e s) = owner_inv s"
  by (simp add: owner_inv_def)

lemma pr_emit [simp]: "ipc_progress (emit e s) = ipc_progress s"
  by (simp add: ipc_progress_def)

lemma ow_enqueue: "owner_inv s \<Longrightarrow> ownerOk (memo_whenIpcReady s) k \<Longrightarrow> owner_inv (enqueue k out s)"
  by (auto simp: owner_inv_def)

lemma pr_enqueue: "ipc_progress s \<Longrightarrow> ipc_progress (enqueue k out s)"
  by (auto simp: ipc_progress_def)

lemma reactions_await:
  "set (reactions (promises (await p k s) q)) \<subseteq> insert k (set (reactions (promises s q)))"
  "set (reactions (promises s q)) \<subseteq> set (reactions (promises (await p k s) q))"
  by (auto simp: await_def enqueue_def split: outcome.splits)

lemma microtasks_await:
  "set (microtasks (await p k s)) \<subseteq> insert (k, outcome (promises s p)) (set (microtasks s))"
  "set (microtasks s) \<subseteq> set (microtasks (await p k s))"
  by (auto simp: await_def enqueue_def split: outcome.splits)

lemma ow_await: "owner_inv s \<Longrightarrow> ownerOk (memo_whenIpcReady s) k \<Longrightarrow> owner_inv (await p k s)"
  unfolding owner_inv_def
  apply (intro conjI)
    apply simp
   using microtasks_await(1) [of p k s] apply fastforce
  using reactions_await(1) [of p k s] apply fastforce
  done

lemma pr_await: "ipc_progress s \<Longrightarrow> ipc_progress (await p k s)"
  unfolding ipc_progress_def using microtasks_await(2) [of s p k] by (simp) blast

lemma listening_await: "listening s q \<Longrightarrow> listening (await p k s) q"
  unfolding listening_def using reactions_await(2) [of s "PSignal q" p k] by (simp) blast

lemma sg_await:
  "signal_inv s \<Longrightarrow> ownerOk (memo_whenIpcReady s) k \<Longrightarrow> signal_inv (await p k s)"
  unfolding signal_inv_def
  by (auto simp: ow_await pr_await listening_await ipcReadySeen_def)


lemma settle_cases:
  "outcome (promises s p) = Pending \<Longrightarrow>
     promises (settle p out s) = (promises s)(p := \<lparr>outcome = out, reactions = []\<rparr>) \<and>
     microtasks (settle p out s) = microtasks s @ map (\<lambda>k. (k, out)) (reactions (promises s p))"
  "outcome (promises s p) \<noteq> Pending \<Longrightarrow> settle p out s = s"
  by (auto simp: settle_def split: outcome.splits)

lemma ow_settle: "owner_inv s \<Longrightarrow> owner_inv (settle p out s)"
  by (cases "outcome (promises s p) = Pending")
     (auto simp: owner_inv_def settle_cases)

lemma pr_settle: "ipc_progress s \<Longrightarrow> ipc_progress (settle p out s)"
  by (cases "outcome (promises s p) = Pending")
     (auto simp: ipc_progress_def settle_cases)

lemma listening_settle:
  "owner_inv s \<Longrightarrow> listening s q \<Longrightarrow> listening (settle p out s) q \<or> ipc_progress (settle p out s)"
proof (cases "p = PSignal q")
  case True
  assume o: "owner_inv s" and l: "listening s q"
  then obtain r where r: "IpcAfterSignal r \<in> set (reactions (promises s (PSignal q)))"
    and pend: "outcome (promises s (PSignal q)) = Pending"
    by (auto simp: listening_def)
  from o r have m: "memo_whenIpcReady s = Some r"
    unfolding owner_inv_def by (metis ownerOk.simps(2))
  have "(IpcAfterSignal r, out) \<in> set (microtasks (settle p out s))"
    using r pend True by (auto simp: settle_cases)
  then show ?thesis using m by (auto simp: ipc_progress_def)
next
  case False
  assume "listening s q"
  then have "listening (settle p out s) q"
    using False by (cases "outcome (promises s p) = Pending") (auto simp: listening_def settle_cases)
  then show ?thesis by simp
qed

lemma sg_settle: "signal_inv s \<Longrightarrow> signal_inv (settle p out s)"
  unfolding signal_inv_def
  using listening_settle [of s _ p out] pr_settle [of s p out]
  by (auto simp: ow_settle ipcReadySeen_def)

lemma sg_openBarrier: "signal_inv s \<Longrightarrow> signal_inv (openBarrier s)"
  by (auto simp: sg_defs openBarrier_def barrier_open_def)

lemma ownerOk_None: "ownerOk None k \<Longrightarrow> ownerOk m k"
  by (cases k) simp_all

lemma sg_whenIpcReady: "signal_inv s \<Longrightarrow> signal_inv (snd (whenIpcReady s))"
proof (cases "memo_whenIpcReady s")
  case (Some p)
  then show "signal_inv s \<Longrightarrow> ?thesis" by (simp add: whenIpcReady_def)
next
  case None
  assume inv: "signal_inv s"
  let ?p = "nextPid s"
  let ?s' = "(awaitBarrier (IpcAfterBarrier ?p) (s\<lparr>nextPid := Suc ?p\<rparr>))\<lparr>memo_whenIpcReady := Some ?p\<rparr>"
  have e: "snd (whenIpcReady s) = ?s'" using None by (simp add: whenIpcReady_def newPid_def)
  have np: "\<not> ipc_progress s" using None by (simp add: ipc_progress_def)
  have o: "owner_inv ?s'"
    using inv None
    by (auto simp: signal_inv_def owner_inv_def awaitBarrier_def barrier_wait_def
        intro: ownerOk_None)
  have l: "\<forall>q \<in> set (onceIpcReady ?s'). listening ?s' q"
    using inv np by (auto simp: signal_inv_def listening_def awaitBarrier_def barrier_wait_def)
  have r: "\<not> ipcReadySeen ?s'"
    using inv np by (auto simp: signal_inv_def ipcReadySeen_def awaitBarrier_def barrier_wait_def)
  show ?thesis unfolding e signal_inv_def using o l r by blast
qed

lemma sg_newPid [simp]: "signal_inv (snd (newPid s)) = signal_inv s"
  by (simp add: newPid_def)

lemma sg_connect: "signal_inv s \<Longrightarrow> signal_inv (snd (connect s))"
  by (simp add: connect_def split_beta sg_await sg_whenIpcReady)

lemma sg_toggle: "signal_inv s \<Longrightarrow> signal_inv (snd (toggle s))"
  by (simp add: toggle_def split_beta sg_await sg_whenIpcReady)

lemma sg_whenReady: "signal_inv s \<Longrightarrow> signal_inv (snd (whenReady s))"
  by (simp add: whenReady_def newPid_def sg_emit sg_defs split: option.splits)

lemma sg_channelRequest: "signal_inv s \<Longrightarrow> signal_inv (channelRequest sender nonce s)"
  by (simp add: channelRequest_def split_beta sg_await sg_whenReady sg_emit)

lemma sg_spawn: "signal_inv s \<Longrightarrow> signal_inv (spawn env s)"
  by (simp add: spawn_def sg_openBarrier)


lemma sg_createWindow: "signal_inv s \<Longrightarrow> signal_inv (createWindow s)"
  by (simp add: createWindow_def Let_def sg_emit)

lemma sg_registerWindowListeners: "signal_inv s \<Longrightarrow> signal_inv (registerWindowListeners s)"
  by (simp add: registerWindowListeners_def sg_emit split: option.splits)

lemma await_new_listener:
  "memo_whenIpcReady s = Some p \<Longrightarrow>
   listening (await (PSignal q) (IpcAfterSignal p) s) q \<or>
   ipc_progress (await (PSignal q) (IpcAfterSignal p) s)"
  by (cases "outcome (promises s (PSignal q))")
     (auto simp: listening_def ipc_progress_def await_def enqueue_def)

lemma await_onceIpcReady:
  "await p k (s\<lparr>onceIpcReady := x\<rparr>) = (await p k s)\<lparr>onceIpcReady := x\<rparr>"
  by (simp add: await_def enqueue_def split: outcome.splits)

lemma emit_onceIpcReady:
  "emit e (s\<lparr>onceIpcReady := x\<rparr>) = (emit e s)\<lparr>onceIpcReady := x\<rparr>"
  by (simp add: emit_def)

lemma sg_add_listener:
  "signal_inv s \<Longrightarrow> listening s q \<or> ipc_progress s \<Longrightarrow>
   signal_inv (s\<lparr>onceIpcReady := onceIpcReady s @ [q]\<rparr>)"
  by (auto simp: sg_defs)

lemma sg_register_listener:
  assumes "signal_inv s" and "memo_whenIpcReady s = Some p"
  shows "signal_inv (await (PSignal q) (IpcAfterSignal p) (s\<lparr>onceIpcReady := onceIpcReady s @ [q]\<rparr>))"
proof -
  let ?a = "await (PSignal q) (IpcAfterSignal p) s"
  have "signal_inv ?a" using assms by (simp add: sg_await)
  moreover have "listening ?a q \<or> ipc_progress ?a" using assms(2) by (rule await_new_listener)
  ultimately have "signal_inv (?a\<lparr>onceIpcReady := onceIpcReady ?a @ [q]\<rparr>)"
    by (rule sg_add_listener)
  then show ?thesis by (simp add: await_onceIpcReady)
qed

lemma sg_ipcAfterBarrier:
  assumes "signal_inv s" and "memo_whenIpcReady s = Some p"
  shows "signal_inv (ipcAfterBarrier p s)"
proof -
  let ?s1 = "registerWindowListeners (createWindow s)"
  let ?s2 = "emit (IpcMainOnce ch_ipc_ready) (?s1\<lparr>nextPid := Suc (nextPid ?s1)\<rparr>)"
  have i: "signal_inv ?s2"
    using assms(1) by (simp add: sg_emit sg_registerWindowListeners sg_createWindow)
  have m: "memo_whenIpcReady ?s2 = Some p" using assms(2) by simp
  have "ipcAfterBarrier p s =
      await (PSignal (nextPid ?s1)) (IpcAfterSignal p)
        (?s2\<lparr>onceIpcReady := onceIpcReady ?s2 @ [nextPid ?s1]\<rparr>)"
    by (simp add: ipcAfterBarrier_def newPid_def emit_onceIpcReady)
  then show ?thesis using sg_register_listener [OF i m] by simp
qed

lemma ipcAfterSignal_progress:
  assumes "owner_inv s" and "memo_whenIpcReady s = Some p"
  shows "signal_inv (ipcAfterSignal p out s)"
proof -
  obtain res where e: "ipcAfterSignal p out s = settle (PIpc p) res s" and o: "res \<noteq> Pending"
    by (cases out) (auto simp: ipcAfterSignal_def)
  have "outcome (promises (settle (PIpc p) res s) (PIpc p)) \<noteq> Pending"
    using o by (cases "outcome (promises s (PIpc p)) = Pending") (auto simp: settle_cases)
  then have "ipc_progress (settle (PIpc p) res s)"
    using assms(2) by (auto simp: ipc_progress_def)
  then show ?thesis unfolding e using assms(1) by (simp add: sg_from_progress ow_settle)
qed

lemma sg_connectAfterIpc: "signal_inv s \<Longrightarrow> signal_inv (connectAfterIpc c out s)"
  by (simp add: connectAfterIpc_def connectMessagePort_def sg_settle sg_emit
      split: outcome.splits option.splits)

lemma sg_toggleAfterIpc: "signal_inv s \<Longrightarrow> signal_inv (toggleAfterIpc t out s)"
  by (simp add: toggleAfterIpc_def sg_settle sg_emit split: outcome.splits option.splits)

lemma sg_handlerAfterReady: "signal_inv s \<Longrightarrow> signal_inv (handlerAfterReady sender nonce h out s)"
  by (simp add: handlerAfterReady_def split_beta sg_settle sg_await sg_connect
      split: outcome.splits)

lemma sg_handlerAfterConnect: "signal_inv s \<Longrightarrow> signal_inv (handlerAfterConnect sender nonce h out s)"
  by (simp add: handlerAfterConnect_def sg_settle sg_emit split: outcome.splits)

lemma sg_runMicrotask: "signal_inv s \<Longrightarrow> signal_inv (runMicrotask s)"
proof (cases "microtasks s")
  case Nil
  then show "signal_inv s \<Longrightarrow> ?thesis" by (simp add: runMicrotask_def)
next
  case (Cons j rest)
  assume inv: "signal_inv s"
  obtain k out where j: "j = (k, out)" by (cases j)
  let ?s = "s\<lparr>microtasks := rest\<rparr>"
  have ok: "ownerOk (memo_whenIpcReady s) k"
    using inv Cons j by (auto simp: signal_inv_def owner_inv_def)
  have ow: "owner_inv ?s"
    using inv Cons by (auto simp: signal_inv_def owner_inv_def)
  have e: "runMicrotask s = resume k out ?s" by (simp add: runMicrotask_def Cons j)
  show ?thesis
  proof (cases k)
    case (IpcAfterSignal p)
    then show ?thesis
      using ipcAfterSignal_progress [OF ow, of p out] ok by (simp add: e resume_def)
  next
    case (IpcAfterBarrier p)
    have "signal_inv ?s"
      using inv Cons j IpcAfterBarrier by (auto simp: sg_defs)
    then show ?thesis using ok IpcAfterBarrier by (simp add: e resume_def sg_ipcAfterBarrier)
  next
    case (ConnectAfterIpc c)
    have "signal_inv ?s"
      using inv Cons j ConnectAfterIpc by (auto simp: sg_defs)
    then show ?thesis using ConnectAfterIpc by (simp add: e resume_def sg_connectAfterIpc)
  next
    case (ToggleAfterIpc t)
    have "signal_inv ?s"
      using inv Cons j ToggleAfterIpc by (auto simp: sg_defs)
    then show ?thesis using ToggleAfterIpc by (simp add: e resume_def sg_toggleAfterIpc)
  next
    case (HandlerAfterReady a b c)
    have "signal_inv ?s"
      using inv Cons j HandlerAfterReady by (auto simp: sg_defs)
    then show ?thesis using HandlerAfterReady by (simp add: e resume_def sg_handlerAfterReady)
  next
    case (HandlerAfterConnect a b c)
    have "signal_inv ?s"
      using inv Cons j HandlerAfterConnect by (auto simp: sg_defs)
    then show ?thesis using HandlerAfterConnect by (simp add: e resume_def sg_handlerAfterConnect)
  qed
qed


lemma settle_listening_progress:
  assumes "owner_inv s" and "listening s q"
  shows "ipc_progress (settle (PSignal q) out s)"
proof -
  from assms(2) obtain r where r: "IpcAfterSignal r \<in> set (reactions (promises s (PSignal q)))"
    and pend: "outcome (promises s (PSignal q)) = Pending"
    by (auto simp: listening_def)
  from assms(1) r have m: "memo_whenIpcReady s = Some r"
    unfolding owner_inv_def by (metis ownerOk.simps(2))
  have "(IpcAfterSignal r, out) \<in> set (microtasks (settle (PSignal q) out s))"
    using r pend by (auto simp: settle_cases)
  then show ?thesis using m by (auto simp: ipc_progress_def)
qed

lemma listening_emit [simp]: "listening (emit e s) q = listening s q"
  by (simp add: listening_def)

lemma ipcReadyListener_progress:
  assumes "owner_inv s" and "listening s q \<or> ipc_progress s"
  shows "owner_inv (ipcReadyListener q s)" and "ipc_progress (ipcReadyListener q s)"
proof -
  show "owner_inv (ipcReadyListener q s)"
    using assms(1) by (simp add: ipcReadyListener_def ow_settle)
  from assms(2) show "ipc_progress (ipcReadyListener q s)"
  proof
    assume "listening s q"
    then show ?thesis
      using assms(1) by (simp add: ipcReadyListener_def settle_listening_progress)
  next
    assume "ipc_progress s"
    then show ?thesis by (simp add: ipcReadyListener_def pr_settle)
  qed
qed

lemma onceIpcReady_listener [simp]: "onceIpcReady (ipcReadyListener q s) = onceIpcReady s"
  by (simp add: ipcReadyListener_def)

lemma sg_callAll_ipcReady:
  "owner_inv s \<Longrightarrow> \<forall>q \<in> set qs. listening s q \<or> ipc_progress s \<Longrightarrow>
   ipcReadySeen s \<longrightarrow> ipc_progress s \<Longrightarrow> onceIpcReady s = [] \<Longrightarrow>
   signal_inv (callAll ipcReadyListener qs s)"
proof (induction qs arbitrary: s)
  case Nil
  then show ?case by (simp add: signal_inv_def)
next
  case (Cons q qs)
  have "listening s q \<or> ipc_progress s" using Cons.prems(2) by auto
  note p = ipcReadyListener_progress [OF Cons.prems(1) this]
  have "signal_inv (callAll ipcReadyListener qs (ipcReadyListener q s))"
    by (rule Cons.IH) (simp_all add: p Cons.prems(4))
  then show ?case by simp
qed

lemma sg_onIpcReady: "signal_inv s \<Longrightarrow> signal_inv (onIpcReady s)"
  unfolding onIpcReady_def
  by (rule sg_callAll_ipcReady) (auto simp: sg_defs)

lemma sg_callAll:
  "(\<And>q s. signal_inv s \<Longrightarrow> signal_inv (f q s)) \<Longrightarrow> signal_inv s \<Longrightarrow> signal_inv (callAll f qs s)"
  by (induction qs arbitrary: s) simp_all

lemma trace_neq [simp]: "Trace msg_overall_ready \<noteq> Trace msg_ipc_ready"
  by simp

lemma sg_onInitDone: "signal_inv s \<Longrightarrow> signal_inv (onInitDone s)"
  unfolding onInitDone_def
  by (rule sg_callAll) (simp_all add: initDoneListener_def sg_settle sg_emit)

lemma sg_onWillShutdown: "signal_inv s \<Longrightarrow> signal_inv (onWillShutdown s)"
  by (simp add: onWillShutdown_def Let_def sg_emit split: option.splits)

lemma sg_runTimer: "signal_inv s \<Longrightarrow> signal_inv (runTimer throws s)"
  by (simp add: runTimer_def shutdownTimeout_def windowClose_def sg_emit split: list.splits)

lemma sg_step: "signal_inv s \<Longrightarrow> signal_inv (step e s)"
  by (cases e)
     (simp_all add: sg_spawn sg_connect sg_toggle sg_whenReady sg_channelRequest sg_onIpcReady
        sg_onInitDone sg_onWillShutdown sg_runMicrotask sg_runTimer)

lemma sg_run: "signal_inv s \<Longrightarrow> signal_inv (run es s)"
  by (induction es arbitrary: s) (simp_all add: sg_step)

lemma sg_reachable: "signal_inv (run es (init mid env svc lvl))"
  by (rule sg_run) (simp add: sg_defs init_def)








subsection \<open>Jobs are served in order and reactions are not lost\<close>

lemma ev_refl [simp]: "evolves s s"
  by (simp add: evolves_def)

lemma ev_trans: "evolves s t \<Longrightarrow> evolves t u \<Longrightarrow> evolves s u"
  unfolding evolves_def
  apply (intro conjI)
     apply (metis append.assoc)
    apply (metis UnCI set_append)
   apply linarith
  apply (metis less_le_trans)
  done

lemma ev_upd [simp]:
  "evolves s (t\<lparr>nextPid := a1\<rparr>) = evolves s t"
  "evolves s (t\<lparr>memo_whenIpcReady := a2\<rparr>) = evolves s t"
  "evolves s (t\<lparr>memo_whenReady := a3\<rparr>) = evolves s t"
  "evolves s (t\<lparr>onceIpcReady := a4\<rparr>) = evolves s t"
  "evolves s (t\<lparr>onceInitDone := a5\<rparr>) = evolves s t"
  "evolves s (t\<lparr>window := a6\<rparr>) = evolves s t"
  "evolves s (t\<lparr>windowCloseListener := a9\<rparr>) = evolves s t"
  "evolves s (t\<lparr>timers := a10\<rparr>) = evolves s t"
  "evolves s (t\<lparr>nextPort := a11\<rparr>) = evolves s t"
  "evolves s (t\<lparr>userEnv := a12\<rparr>) = evolves s t"
  "evolves s (t\<lparr>whenSpawnedBarrier := a13\<rparr>) = evolves s t"
  "evolves s (t\<lparr>trace := a14\<rparr>) = evolves s t"
  by (simp_all add: evolves_def)

lemma ev_emit [simp]: "evolves s (emit e t) = evolves s t"
  by (simp add: emit_def)

lemma ev_newPid [simp]: "evolves s (snd (newPid t)) = evolves s t"
  by (simp add: newPid_def)

lemma ev_enqueue1: "evolves t (enqueue k out t)"
  by (auto simp: evolves_def)

lemma ev_await1: "evolves t (await p k t)"
  by (cases "outcome (promises t p)") (auto simp: evolves_def await_def enqueue_def)

lemma ev_settle1: "evolves t (settle p out t)"
  by (cases "outcome (promises t p) = Pending") (auto simp: evolves_def settle_cases)

lemma ev_awaitBarrier1: "evolves t (awaitBarrier k t)"
  by (auto simp: evolves_def awaitBarrier_def barrier_wait_def)

lemma ev_openBarrier1: "evolves t (openBarrier t)"
  by (auto simp: evolves_def openBarrier_def barrier_open_def)

lemma ev_createWindow1: "evolves t (createWindow t)"
  by (auto simp: evolves_def createWindow_def Let_def emit_def)

lemma ev_register1: "evolves t (registerWindowListeners t)"
  by (auto simp: evolves_def registerWindowListeners_def emit_def split: option.splits)

lemma ev_windows_flags:
  "loadedConfig b = loadedConfig (windows t w) \<Longrightarrow>
   evolves s (t\<lparr>windows := (windows t)(w := b)\<rparr>) = evolves s t"
  by (auto simp: evolves_def)

lemma ev_steps:
  "evolves s t \<Longrightarrow> evolves s (enqueue k out t)"
  "evolves s t \<Longrightarrow> evolves s (await p k t)"
  "evolves s t \<Longrightarrow> evolves s (settle p out t)"
  "evolves s t \<Longrightarrow> evolves s (awaitBarrier k t)"
  "evolves s t \<Longrightarrow> evolves s (openBarrier t)"
  "evolves s t \<Longrightarrow> evolves s (createWindow t)"
  "evolves s t \<Longrightarrow> evolves s (registerWindowListeners t)"
  by (erule ev_trans, rule ev_enqueue1 ev_await1 ev_settle1 ev_awaitBarrier1 ev_openBarrier1
      ev_createWindow1 ev_register1)+

lemma ev_whenIpcReady: "evolves s t \<Longrightarrow> evolves s (snd (whenIpcReady t))"
  by (simp add: whenIpcReady_def split_beta ev_steps split: option.splits)

lemma ev_connect: "evolves s t \<Longrightarrow> evolves s (snd (connect t))"
  by (simp add: connect_def split_beta ev_steps ev_whenIpcReady)

lemma ev_toggle: "evolves s t \<Longrightarrow> evolves s (snd (toggle t))"
  by (simp add: toggle_def split_beta ev_steps ev_whenIpcReady)

lemma ev_whenReady: "evolves s t \<Longrightarrow> evolves s (snd (whenReady t))"
  by (simp add: whenReady_def split_beta split: option.splits)

lemma ev_channelRequest: "evolves s t \<Longrightarrow> evolves s (channelRequest sender nonce t)"
  by (simp add: channelRequest_def split_beta ev_steps ev_whenReady)

lemma ev_spawn: "evolves s t \<Longrightarrow> evolves s (spawn env t)"
  by (simp add: spawn_def ev_steps)

lemma ev_resume: "evolves s t \<Longrightarrow> evolves s (resume k out t)"
  by (cases k)
     (simp_all add: resume_def ipcAfterBarrier_def ipcAfterSignal_def connectAfterIpc_def
        connectMessagePort_def toggleAfterIpc_def handlerAfterReady_def handlerAfterConnect_def
        split_beta ev_steps ev_connect ev_windows_flags split: outcome.splits option.splits)

lemma ev_callAll:
  "(\<And>q s t. evolves s t \<Longrightarrow> evolves s (f q t)) \<Longrightarrow> evolves s t \<Longrightarrow> evolves s (callAll f qs t)"
  by (induction qs arbitrary: t) simp_all

lemma ev_messages:
  "evolves s t \<Longrightarrow> evolves s (onIpcReady t)" "evolves s t \<Longrightarrow> evolves s (onInitDone t)"
proof -
  show "evolves s t \<Longrightarrow> evolves s (onIpcReady t)"
    unfolding onIpcReady_def by (rule ev_callAll) (simp_all add: ipcReadyListener_def ev_steps)
  show "evolves s t \<Longrightarrow> evolves s (onInitDone t)"
    unfolding onInitDone_def by (rule ev_callAll) (simp_all add: initDoneListener_def ev_steps)
qed

lemma ev_shutdown:
  "evolves s t \<Longrightarrow> evolves s (onWillShutdown t)" "evolves s t \<Longrightarrow> evolves s (runTimer throws t)"
  by (simp_all add: onWillShutdown_def Let_def runTimer_def shutdownTimeout_def windowClose_def
      ev_windows_flags split: option.splits list.splits)

lemma ev_runMicrotask:
  "microtasks s = j # rest \<Longrightarrow> evolves (s\<lparr>microtasks := rest\<rparr>) (runMicrotask s)"
  by (cases j) (simp add: runMicrotask_def ev_resume)


lemma ev_step_other:
  "e \<noteq> Microtask \<Longrightarrow> evolves s (step e s)"
  by (cases e)
     (simp_all add: ev_spawn ev_connect ev_toggle ev_whenReady ev_channelRequest ev_messages
        ev_shutdown ev_windows_flags)

lemma cfg_kept_step:
  "nextWindowId s \<le> nextWindowId (step e s) \<and>
   (\<forall>w < nextWindowId s. loadedConfig (windows (step e s) w) = loadedConfig (windows s w))"
proof (cases "e = Microtask")
  case True
  show ?thesis
  proof (cases "microtasks s")
    case Nil
    then show ?thesis using True by (simp add: runMicrotask_def)
  next
    case (Cons j rest)
    from ev_runMicrotask [OF Cons] show ?thesis using True by (simp add: evolves_def)
  qed
next
  case False
  from ev_step_other [OF False, of s] show ?thesis by (simp add: evolves_def)
qed

lemma cfg_kept_run:
  "nextWindowId s \<le> nextWindowId (run es s) \<and>
   (\<forall>w < nextWindowId s. loadedConfig (windows (run es s) w) = loadedConfig (windows s w))"
proof (induction es arbitrary: s)
  case Nil
  show ?case by simp
next
  case (Cons e es)
  from cfg_kept_step [of s e] Cons [of "step e s"] show ?case
    by (auto simp: less_le_trans)
qed

lemma tidy_upd [simp]:
  "tidy (t\<lparr>nextPid := a1\<rparr>) = tidy t"
  "tidy (t\<lparr>memo_whenIpcReady := a2\<rparr>) = tidy t"
  "tidy (t\<lparr>memo_whenReady := a3\<rparr>) = tidy t"
  "tidy (t\<lparr>onceIpcReady := a4\<rparr>) = tidy t"
  "tidy (t\<lparr>onceInitDone := a5\<rparr>) = tidy t"
  "tidy (t\<lparr>window := a6\<rparr>) = tidy t"
  "tidy (t\<lparr>windows := a7\<rparr>) = tidy t"
  "tidy (t\<lparr>nextWindowId := a8\<rparr>) = tidy t"
  "tidy (t\<lparr>windowCloseListener := a9\<rparr>) = tidy t"
  "tidy (t\<lparr>timers := a10\<rparr>) = tidy t"
  "tidy (t\<lparr>nextPort := a11\<rparr>) = tidy t"
  "tidy (t\<lparr>userEnv := a12\<rparr>) = tidy t"
  "tidy (t\<lparr>whenSpawnedBarrier := a13\<rparr>) = tidy t"
  "tidy (t\<lparr>trace := a14\<rparr>) = tidy t"
  "tidy (t\<lparr>microtasks := a15\<rparr>) = tidy t"
  by (simp_all add: tidy_def)

lemma tidy_prims [simp]:
  "tidy (emit e t) = tidy t"
  "tidy (enqueue k out t) = tidy t"
  "tidy (snd (newPid t)) = tidy t"
  "tidy (awaitBarrier k t) = tidy t"
  "tidy (openBarrier t) = tidy t"
  "tidy (createWindow t) = tidy t"
  "tidy (registerWindowListeners t) = tidy t"
  by (simp_all add: tidy_def newPid_def)














lemma userEnv_prims [simp]:
  "userEnv (snd (newPid t)) = userEnv t"
  "userEnv (awaitBarrier k t) = userEnv t"
  "userEnv (openBarrier t) = userEnv t"
  "userEnv (snd (connectMessagePort w t)) = userEnv t"
  by (simp_all add: newPid_def awaitBarrier_def barrier_wait_def openBarrier_def barrier_open_def
      connectMessagePort_def)

lemma userEnv_whenIpcReady [simp]: "userEnv (snd (whenIpcReady t)) = userEnv t"
  by (simp add: whenIpcReady_def split_beta split: option.splits)

lemma userEnv_connect [simp]: "userEnv (snd (connect t)) = userEnv t"
  by (simp add: connect_def split_beta)

lemma userEnv_toggle [simp]: "userEnv (snd (toggle t)) = userEnv t"
  by (simp add: toggle_def split_beta)

lemma userEnv_whenReady [simp]: "userEnv (snd (whenReady t)) = userEnv t"
  by (simp add: whenReady_def split_beta split: option.splits)

lemma userEnv_channelRequest [simp]: "userEnv (channelRequest sender nonce t) = userEnv t"
  by (simp add: channelRequest_def split_beta)

lemma userEnv_resume [simp]: "userEnv (resume k out t) = userEnv t"
  by (cases k)
     (simp_all add: resume_def ipcAfterBarrier_def ipcAfterSignal_def connectAfterIpc_def
        toggleAfterIpc_def handlerAfterReady_def handlerAfterConnect_def split_beta
        split: outcome.splits option.splits)

lemma userEnv_callAll:
  "(\<And>q t. userEnv (f q t) = userEnv t) \<Longrightarrow> userEnv (callAll f qs t) = userEnv t"
  by (induction qs arbitrary: t) simp_all

lemma userEnv_messages [simp]:
  "userEnv (onIpcReady t) = userEnv t" "userEnv (onInitDone t) = userEnv t"
  by (simp_all add: onIpcReady_def onInitDone_def userEnv_callAll ipcReadyListener_def
      initDoneListener_def)

lemma userEnv_shutdown [simp]:
  "userEnv (onWillShutdown t) = userEnv t" "userEnv (runTimer throws t) = userEnv t"
  by (simp_all add: onWillShutdown_def Let_def runTimer_def shutdownTimeout_def windowClose_def
      split: option.splits list.splits)

lemma userEnv_step: "userEnv (step e t) = foldl (++) (userEnv t) (overlaysOf [e])"
  by (cases e) (simp_all add: runMicrotask_def split: list.splits)

lemma overlaysOf_Cons: "overlaysOf (e # es) = overlaysOf [e] @ overlaysOf es"
  by (cases e) simp_all

lemma userEnv_run: "userEnv (run es t) = foldl (++) (userEnv t) (overlaysOf es)"
proof (induction es arbitrary: t)
  case Nil
  show ?case by simp
next
  case (Cons e es)
  have "userEnv (run (e # es) t) = foldl (++) (userEnv (step e t)) (overlaysOf es)"
    by (simp add: Cons)
  also have "\<dots> = foldl (++) (userEnv t) (overlaysOf [e] @ overlaysOf es)"
    by (simp only: userEnv_step foldl_append)
  finally show ?case by (simp only: overlaysOf_Cons [of e es])
qed






lemma nextWindowId_ipcAfterBarrier: "nextWindowId (ipcAfterBarrier p s) = Suc (nextWindowId s)"
  by (simp add: ipcAfterBarrier_def newPid_def)

lemma userEnv_reachable: "userEnv (run es (init mid env svc lvl)) = foldl (++) env (overlaysOf es)"
  by (simp add: userEnv_run) (simp add: init_def)

lemma waiters_are_bodies:
  "handshake_inv s \<Longrightarrow> filter isBody (waiters (whenSpawnedBarrier s)) = waiters (whenSpawnedBarrier s)"
  by (simp add: handshake_inv_def)

lemma waiter_is_memoized_body:
  assumes "handshake_inv s" and "signal_inv s" and "k \<in> set (waiters (whenSpawnedBarrier s))"
  shows "\<exists>p. k = IpcAfterBarrier p \<and> memo_whenIpcReady s = Some p"
proof -
  from assms(1,3) have "isBody k" by (simp add: handshake_inv_def)
  then obtain p where k: "k = IpcAfterBarrier p" by (cases k) simp_all
  from assms(2,3) have "ownerOk (memo_whenIpcReady s) k"
    by (simp add: signal_inv_def owner_inv_def)
  with k show ?thesis by simp
qed

lemma awaitBarrier_closed:
  "\<not> opened s \<Longrightarrow>
   whenSpawnedBarrier (awaitBarrier k s) =
     \<lparr>isOpen = False, waiters = waiters (whenSpawnedBarrier s) @ [k]\<rparr> \<and>
   microtasks (awaitBarrier k s) = microtasks s \<and>
   microtasks (spawn e (awaitBarrier k s)) =
     microtasks s @ map (\<lambda>k. (k, Fulfilled VTrue)) (waiters (whenSpawnedBarrier s) @ [k])"
  by (simp add: opened_def awaitBarrier_def barrier_wait_def)

lemma first_access_then_spawn:
  assumes "once_inv s" and "handshake_inv s" and "memo_whenIpcReady s = None" and "\<not> opened s"
  shows "microtasks (spawn e (snd (whenIpcReady s))) =
           microtasks s @ [(IpcAfterBarrier (fst (whenIpcReady s)), Fulfilled VTrue)]"
    and "waiters (whenSpawnedBarrier (snd (whenIpcReady s))) = [IpcAfterBarrier (fst (whenIpcReady s))]"
proof -
  from assms(1,3) have "length (filter isBody (waiters (whenSpawnedBarrier s))) = 0"
    by (simp add: once_inv_def pendingBodies_def)
  then have w: "waiters (whenSpawnedBarrier s) = []"
    using waiters_are_bodies [OF assms(2)] by simp
  show "microtasks (spawn e (snd (whenIpcReady s))) =
           microtasks s @ [(IpcAfterBarrier (fst (whenIpcReady s)), Fulfilled VTrue)]"
    using assms(3,4) w
    by (simp add: whenIpcReady_def newPid_def opened_def awaitBarrier_def barrier_wait_def)
  show "waiters (whenSpawnedBarrier (snd (whenIpcReady s))) = [IpcAfterBarrier (fst (whenIpcReady s))]"
    using assms(3,4) w
    by (simp add: whenIpcReady_def newPid_def opened_def awaitBarrier_def barrier_wait_def)
qed

section \<open>The claims\<close>

text \<open>
  C1, as the spec states it: for every sequence of accesses to the ipc-ready milestone
  the host-creation side effect runs exactly once. The body behind \<^verbatim>\<open>whenIpcReady\<close>
  first waits for the barrier, so accesses alone create nothing: after \<^verbatim>\<open>connect()\<close>,
  \<^verbatim>\<open>toggle()\<close>, \<^verbatim>\<open>connect()\<close> and no \<^verbatim>\<open>spawn()\<close> the event loop is idle and no window
  has been created.
\<close>

theorem accesses_without_spawn_create_nothing:
  "hostCreations (run [Connect, Toggle, Connect] fresh) = 0 \<and>
   microtasks (run [Connect, Toggle, Connect] fresh) = [] \<and>
   timers (run [Connect, Toggle, Connect] fresh) = []"
  by code_simp

text \<open>
  C1, amended: in every state a coordinator can reach, whatever the order of calls,
  messages and jobs, \<^verbatim>\<open>createWindow\<close> has run at most once and the \<^verbatim>\<open>close\<close> listener
  has been registered as often as a window was created; it has run exactly once as soon
  as the milestone has been accessed, \<^verbatim>\<open>spawn()\<close> has opened the barrier and the released
  jobs have run; and every access after the first returns the memoized promise and
  changes nothing.
\<close>

theorem host_created_at_most_once:
  assumes "s = run es (init mid env svc lvl)"
  shows "hostCreations s \<le> 1 \<and>
         closeListenerRegistrations s = hostCreations s \<and>
         (memo_whenIpcReady s \<noteq> None \<and> opened s \<and> microtasks s = [] \<longrightarrow> hostCreations s = 1) \<and>
         (\<forall>p. memo_whenIpcReady s = Some p \<longrightarrow> whenIpcReady s = (p, s))"
proof -
  have inv: "once_inv s" using assms by (simp add: once_reachable)
  have "closeListenerRegistrations s = hostCreations s" using inv by (simp add: once_inv_def)
  moreover have "\<forall>p. memo_whenIpcReady s = Some p \<longrightarrow> whenIpcReady s = (p, s)"
    by (simp add: whenIpcReady_def)
  ultimately show ?thesis using once_count_le [OF inv] once_count_eq [OF inv] by blast
qed

theorem host_created_at_most_once_witness:
  "memo_whenIpcReady (run [Connect, Toggle, Spawn Map.empty, Microtask, Connect] fresh) = Some 1 \<and>
   opened (run [Connect, Toggle, Spawn Map.empty, Microtask, Connect] fresh) \<and>
   microtasks (run [Connect, Toggle, Spawn Map.empty, Microtask, Connect] fresh) = [] \<and>
   hostCreations (run [Connect, Toggle, Spawn Map.empty, Microtask, Connect] fresh) = 1 \<and>
   closeListenerRegistrations (run [Connect, Toggle, Spawn Map.empty, Microtask, Connect] fresh) = 1 \<and>
   fst (whenIpcReady (run [Connect, Toggle, Spawn Map.empty, Microtask, Connect] fresh)) = 1"
proof -
  let ?s = "run [Connect, Toggle, Spawn Map.empty, Microtask, Connect] fresh"
  have m: "memo_whenIpcReady ?s = Some 1" by code_simp
  have b: "opened ?s" by code_simp
  have q: "microtasks ?s = []" by code_simp
  have r: "?s = run [Connect, Toggle, Spawn Map.empty, Microtask, Connect]
                  (init ''machine'' Map.empty services0 0)"
    by (simp only: fresh_def)
  show ?thesis using host_created_at_most_once [OF r] m b q by simp
qed




text \<open>
  C3. When the rest of \<^verbatim>\<open>connect()\<close> runs, that is, when its \<^verbatim>\<open>await\<close> of the ipc-ready
  milestone has completed and its job is the next of the queue, the call settles in that
  very job: if the window handle is absent or the contents of the window are destroyed,
  its promise is rejected with the error whose message names the reason (closed or
  destroyed), nothing is sent and no port is allocated; if the window is there and not
  destroyed, its promise is fulfilled with the port \<^verbatim>\<open>connectMessagePort\<close> returns for
  that window, a port that no \<^verbatim>\<open>connect()\<close> call has returned before.
\<close>

theorem connect_fails_or_returns_fresh_port:
  assumes "s = run es (init mid env svc lvl)"
    and "microtasks s = (ConnectAfterIpc c, Fulfilled v) # rest"
    and "outcome (promises s (PConnect c)) = Pending"
  shows "(window s = None \<or> (\<exists>w. window s = Some w \<and> contentsDestroyed (windows s w)) \<longrightarrow>
            outcome (promises (step Microtask s) (PConnect c)) =
              Rejected (Error ''Cannot connect to shared process window because the window is closed or destroyed'') \<and>
            trace (step Microtask s) = trace s \<and> nextPort (step Microtask s) = nextPort s) \<and>
         (\<forall>w. window s = Some w \<and> \<not> contentsDestroyed (windows s w) \<longrightarrow>
            outcome (promises (step Microtask s) (PConnect c)) = Fulfilled (VPort (nextPort s)) \<and>
            trace (step Microtask s) = trace s @ [ConnectMessagePort w (nextPort s)] \<and>
            nextPort (step Microtask s) = Suc (nextPort s) \<and>
            (\<forall>d. outcome (promises s (PConnect d)) \<noteq> Fulfilled (VPort (nextPort s))))"
proof -
  let ?s = "s\<lparr>microtasks := rest\<rparr>"
  have st: "step Microtask s = connectAfterIpc c (Fulfilled v) ?s"
    using assms(2) by (simp add: runMicrotask_def resume_def)
  have pend: "outcome (promises ?s (PConnect c)) = Pending" using assms(3) by simp
  have fresh: "\<forall>d. outcome (promises s (PConnect d)) \<noteq> Fulfilled (VPort (nextPort s))"
    using pi_reachable [of es mid env svc lvl] assms(1) unfolding ports_inv_def by blast
  have rej: "window s = None \<or> (\<exists>w. window s = Some w \<and> contentsDestroyed (windows s w)) \<longrightarrow>
      connectAfterIpc c (Fulfilled v) ?s = settle (PConnect c) (Rejected connect_error) ?s"
    by (auto simp: connectAfterIpc_def)
  have ful: "\<forall>w. window s = Some w \<and> \<not> contentsDestroyed (windows s w) \<longrightarrow>
      connectAfterIpc c (Fulfilled v) ?s =
        settle (PConnect c) (Fulfilled (VPort (nextPort s))) (snd (connectMessagePort w ?s))"
    by (auto simp: connectAfterIpc_def split_beta)
  have pend2: "\<And>w. outcome (promises (snd (connectMessagePort w ?s)) (PConnect c)) = Pending"
    using assms(3) by (simp add: connectMessagePort_def)
  have a: "window s = None \<or> (\<exists>w. window s = Some w \<and> contentsDestroyed (windows s w)) \<longrightarrow>
      outcome (promises (step Microtask s) (PConnect c)) =
        Rejected (Error ''Cannot connect to shared process window because the window is closed or destroyed'') \<and>
      trace (step Microtask s) = trace s \<and> nextPort (step Microtask s) = nextPort s"
  proof
    assume "window s = None \<or> (\<exists>w. window s = Some w \<and> contentsDestroyed (windows s w))"
    with rej have "step Microtask s = settle (PConnect c) (Rejected connect_error) ?s"
      unfolding st by blast
    then show "outcome (promises (step Microtask s) (PConnect c)) =
        Rejected (Error ''Cannot connect to shared process window because the window is closed or destroyed'') \<and>
      trace (step Microtask s) = trace s \<and> nextPort (step Microtask s) = nextPort s"
      by (simp only: settle_pending [OF pend] connect_error_def settle_fields simp_thms)
         simp
  qed
  have b: "\<forall>w. window s = Some w \<and> \<not> contentsDestroyed (windows s w) \<longrightarrow>
      outcome (promises (step Microtask s) (PConnect c)) = Fulfilled (VPort (nextPort s)) \<and>
      trace (step Microtask s) = trace s @ [ConnectMessagePort w (nextPort s)] \<and>
      nextPort (step Microtask s) = Suc (nextPort s) \<and>
      (\<forall>d. outcome (promises s (PConnect d)) \<noteq> Fulfilled (VPort (nextPort s)))"
  proof (intro allI impI)
    fix w assume "window s = Some w \<and> \<not> contentsDestroyed (windows s w)"
    with ful have e: "step Microtask s =
        settle (PConnect c) (Fulfilled (VPort (nextPort s))) (snd (connectMessagePort w ?s))"
      unfolding st by blast
    have "trace (snd (connectMessagePort w ?s)) = trace s @ [ConnectMessagePort w (nextPort s)]"
      by (simp add: connectMessagePort_def)
    then show "outcome (promises (step Microtask s) (PConnect c)) = Fulfilled (VPort (nextPort s)) \<and>
      trace (step Microtask s) = trace s @ [ConnectMessagePort w (nextPort s)] \<and>
      nextPort (step Microtask s) = Suc (nextPort s) \<and>
      (\<forall>d. outcome (promises s (PConnect d)) \<noteq> Fulfilled (VPort (nextPort s)))"
      using fresh unfolding e by (simp add: settle_pending [OF pend2])
  qed
  show ?thesis using a b by blast
qed


theorem connect_fails_or_returns_fresh_port_witness:
  "microtasks (run [Connect, Spawn Map.empty, Microtask, IpcReadyMessage, Microtask] fresh) =
     [(ConnectAfterIpc 0, Fulfilled VUndefined)] \<and>
   outcome (promises (run [Connect, Spawn Map.empty, Microtask, IpcReadyMessage, Microtask] fresh)
     (PConnect 0)) = Pending \<and>
   outcome (promises (step Microtask
     (run [Connect, Spawn Map.empty, Microtask, IpcReadyMessage, Microtask] fresh)) (PConnect 0)) =
     Fulfilled (VPort 0) \<and>
   microtasks (run [Connect, Spawn Map.empty, Microtask, ContentsDestroyed 0, IpcReadyMessage,
     Microtask] fresh) = [(ConnectAfterIpc 0, Fulfilled VUndefined)] \<and>
   outcome (promises (step Microtask
     (run [Connect, Spawn Map.empty, Microtask, ContentsDestroyed 0, IpcReadyMessage, Microtask] fresh))
     (PConnect 0)) =
     Rejected (Error ''Cannot connect to shared process window because the window is closed or destroyed'')"
proof -
  let ?a = "[Connect, Spawn Map.empty, Microtask, IpcReadyMessage, Microtask]"
  let ?b = "[Connect, Spawn Map.empty, Microtask, ContentsDestroyed 0, IpcReadyMessage, Microtask]"
  have ra: "run ?a fresh = run ?a (init ''machine'' Map.empty services0 0)"
    and rb: "run ?b fresh = run ?b (init ''machine'' Map.empty services0 0)"
    by (simp_all only: fresh_def)
  have qa: "microtasks (run ?a fresh) = (ConnectAfterIpc 0, Fulfilled VUndefined) # []"
    and pa: "outcome (promises (run ?a fresh) (PConnect 0)) = Pending"
    and wa: "window (run ?a fresh) = Some 0 \<and> \<not> contentsDestroyed (windows (run ?a fresh) 0)"
    and na: "nextPort (run ?a fresh) = 0"
    by code_simp+
  have qb: "microtasks (run ?b fresh) = (ConnectAfterIpc 0, Fulfilled VUndefined) # []"
    and pb: "outcome (promises (run ?b fresh) (PConnect 0)) = Pending"
    and wb: "window (run ?b fresh) = Some 0 \<and> contentsDestroyed (windows (run ?b fresh) 0)"
    by code_simp+
  from connect_fails_or_returns_fresh_port [OF ra qa pa] wa na
  have "outcome (promises (step Microtask (run ?a fresh)) (PConnect 0)) = Fulfilled (VPort 0)"
    by simp
  moreover from connect_fails_or_returns_fresh_port [OF rb qb pb] wb
  have "outcome (promises (step Microtask (run ?b fresh)) (PConnect 0)) =
     Rejected (Error ''Cannot connect to shared process window because the window is closed or destroyed'')"
    by blast
  ultimately show ?thesis using qa pa qb by simp
qed

text \<open>
  C4. A shutdown trigger on a coordinator, in any state it can reach, whose window is
  there and whose contents are not destroyed: when \<^verbatim>\<open>onWillShutdown\<close> returns, the exit
  message has been sent, the veto listener has been removed from the window (no
  \<^verbatim>\<open>close\<close> listener is attached any more and the removal is in the trace) and the close
  is scheduled; the deferred callback then issues the close after all of that, returns
  without an error whether \<^verbatim>\<open>close()\<close> throws or not, and leaves the handle cleared.
  Where the listener was still attached the trace grows by exactly: exit message,
  removal, timer, close. And whenever a deferred close runs in a reachable state, the
  removal of the veto of its window is already in the trace.
\<close>

theorem shutdown_removes_veto_before_close:
  assumes "s = run es (init mid env svc lvl)"
    and "window s = Some w"
    and "\<not> contentsDestroyed (windows s w)"
  shows "closeListeners (windows (onWillShutdown s) w) = 0 \<and>
         \<not> windowCloseListener (onWillShutdown s) \<and>
         WindowRemoveListener w ''close'' \<in> set (trace (onWillShutdown s)) \<and>
         WebContentsSend w ch_exit \<in> set (trace (onWillShutdown s)) \<and>
         timers (onWillShutdown s) = timers s @ [w] \<and>
         fst (shutdownTimeout throws w (onWillShutdown s)) = None \<and>
         window (snd (shutdownTimeout throws w (onWillShutdown s))) = None \<and>
         trace (snd (shutdownTimeout throws w (onWillShutdown s))) =
           trace (onWillShutdown s) @ [WindowClose w] \<and>
         (windowCloseListener s \<longrightarrow>
            trace (snd (shutdownTimeout throws w (onWillShutdown s))) =
              trace s @ [WebContentsSend w ch_exit, WindowRemoveListener w ''close'',
                         SetTimeout w, WindowClose w]) \<and>
         (\<forall>w' rest. timers s = w' # rest \<longrightarrow>
            WindowRemoveListener w' ''close'' \<in> set (trace s) \<and>
            trace (step (Timeout throws) s) = trace s @ [WindowClose w'] \<and>
            window (step (Timeout throws) s) = None)"
proof -
  have inv: "veto_inv s" using assms(1) by (simp add: vi_reachable)
  note live = onWillShutdown_live [OF inv assms(2) assms(3)]
  have t: "\<forall>w' rest. timers s = w' # rest \<longrightarrow>
            WindowRemoveListener w' ''close'' \<in> set (trace s) \<and>
            trace (step (Timeout throws) s) = trace s @ [WindowClose w'] \<and>
            window (step (Timeout throws) s) = None"
    using inv by (auto simp: veto_inv_def runTimer_def shutdownTimeout_result)
  show ?thesis
    using live t by (simp add: shutdownTimeout_result)
qed

theorem shutdown_removes_veto_before_close_witness:
  "window (run [Connect, Spawn Map.empty, Microtask] fresh) = Some 0 \<and>
   \<not> contentsDestroyed (windows (run [Connect, Spawn Map.empty, Microtask] fresh) 0) \<and>
   windowCloseListener (run [Connect, Spawn Map.empty, Microtask] fresh) \<and>
   fst (shutdownTimeout True 0 (onWillShutdown (run [Connect, Spawn Map.empty, Microtask] fresh))) = None \<and>
   window (snd (shutdownTimeout True 0 (onWillShutdown (run [Connect, Spawn Map.empty, Microtask] fresh)))) = None \<and>
   trace (snd (shutdownTimeout True 0 (onWillShutdown (run [Connect, Spawn Map.empty, Microtask] fresh)))) =
     trace (run [Connect, Spawn Map.empty, Microtask] fresh) @
       [WebContentsSend 0 ch_exit, WindowRemoveListener 0 ''close'', SetTimeout 0, WindowClose 0]"
proof -
  let ?s = "run [Connect, Spawn Map.empty, Microtask] fresh"
  have r: "?s = run [Connect, Spawn Map.empty, Microtask] (init ''machine'' Map.empty services0 0)"
    by (simp only: fresh_def)
  have w: "window ?s = Some 0" and d: "\<not> contentsDestroyed (windows ?s 0)"
    and l: "windowCloseListener ?s"
    by code_simp+
  show ?thesis
    using shutdown_removes_veto_before_close [OF r w d, of True] w d l by blast
qed

text \<open>
  C5, as the spec states it: of two shutdown triggers in succession the second is a
  no-op that finds the handle null. The handle is cleared only inside the callback of
  \<^verbatim>\<open>setTimeout\<close>; a second trigger that comes before that tick still finds the window,
  sends the exit message again and schedules a second close.
\<close>

theorem second_shutdown_before_tick_acts_again:
  "window (run [Connect, Spawn Map.empty, Microtask, WillShutdown] fresh) = Some 0 \<and>
   timers (run [Connect, Spawn Map.empty, Microtask, WillShutdown] fresh) = [0] \<and>
   timers (run [Connect, Spawn Map.empty, Microtask, WillShutdown, WillShutdown] fresh) = [0, 0] \<and>
   length (filter (\<lambda>e. e = WebContentsSend 0 ch_exit)
      (trace (run [Connect, Spawn Map.empty, Microtask, WillShutdown, WillShutdown] fresh))) = 2"
  by code_simp

text \<open>
  C5, amended: once the deferred close of the first trigger has run (one timer tick),
  the handle is cleared whatever \<^verbatim>\<open>close()\<close> did, and a further shutdown trigger is a
  no-op that leaves the whole state as it is. The handler has no failing branch.
\<close>

theorem shutdown_after_deferred_close_is_noop:
  "window (step (Timeout throws) (step WillShutdown s)) = None \<and>
   step WillShutdown (step (Timeout throws) (step WillShutdown s)) =
     step (Timeout throws) (step WillShutdown s)"
  by (simp add: window_after_timer onWillShutdown_no_window)

text \<open>
  C6, as the spec states it: a second call of \<^verbatim>\<open>createWindow\<close> is rejected by an
  already-created guard. The method has no guard: called twice, it creates a second
  window and overwrites the handle, so the first window is no longer referenced.
\<close>

theorem second_createWindow_is_not_rejected:
  "hostCreations (createWindow (createWindow fresh)) = 2 \<and>
   window (createWindow fresh) = Some 0 \<and>
   window (createWindow (createWindow fresh)) = Some 1"
  by code_simp

text \<open>
  C6, amended: \<^verbatim>\<open>createWindow\<close> is called at most once in the lifetime of a
  coordinator, because its only caller is the memoized body behind \<^verbatim>\<open>whenIpcReady\<close>;
  the method itself checks nothing: every call creates a new window and stores it in
  the handle.
\<close>

theorem createWindow_called_at_most_once:
  "hostCreations (run es (init mid env svc lvl)) \<le> 1 \<and>
   hostCreations (createWindow s) = Suc (hostCreations s) \<and>
   window (createWindow s) = Some (nextWindowId s) \<and>
   nextWindowId (createWindow s) = Suc (nextWindowId s)"
proof -
  have "hostCreations (run es (init mid env svc lvl)) \<le> 1"
    by (rule once_count_le) (rule once_reachable)
  moreover have "hostCreations (createWindow s) = Suc (hostCreations s)"
    by (simp add: hostCreations_def)
  ultimately show ?thesis by simp
qed

text \<open>
  C7, as the spec states it: after \<^verbatim>\<open>spawn({FOO:"1"})\<close> then \<^verbatim>\<open>spawn({FOO:"2"})\<close> the
  payload built at window creation maps \<^verbatim>\<open>FOO\<close> to \<^verbatim>\<open>"2"\<close>. The first \<^verbatim>\<open>spawn\<close>
  already opens the barrier, so no second call comes before the gate opens, and what
  the payload holds depends on when the window-creating job runs: if it runs between
  the two calls, the window is created with \<^verbatim>\<open>FOO\<close> as \<^verbatim>\<open>"1"\<close>, and the second
  overlay only reaches the stored environment.
\<close>

theorem overlay_after_window_creation_is_not_in_payload:
  "map_option (\<lambda>c. jsonUserEnv c ''FOO'')
     (loadedConfig (windows (run [Connect, Spawn [''FOO'' \<mapsto> Some ''1''], Microtask,
        Spawn [''FOO'' \<mapsto> Some ''2'']] fresh) 0)) = Some (Some ''1'') \<and>
   userEnv (run [Connect, Spawn [''FOO'' \<mapsto> Some ''1''], Microtask,
        Spawn [''FOO'' \<mapsto> Some ''2'']] fresh) ''FOO'' = Some (Some ''2'') \<and>
   hostCreations (run [Connect, Spawn [''FOO'' \<mapsto> Some ''1''], Microtask,
        Spawn [''FOO'' \<mapsto> Some ''2'']] fresh) = 1 \<and>
   microtasks (run [Connect, Spawn [''FOO'' \<mapsto> Some ''1''], Microtask,
        Spawn [''FOO'' \<mapsto> Some ''2'']] fresh) = []"
  by code_simp

text \<open>
  C7, amended: whenever the window-creating job runs, in any state a coordinator can
  reach, the configuration it builds carries the merge of the overlays of all
  \<^verbatim>\<open>spawn\<close> calls made before, in order over the constructor's environment, a later
  overlay winning on a key both set (a key set to \<^verbatim>\<open>undefined\<close> included, which the
  serialized payload then leaves out); and the payload of that window stays as it is
  whatever happens afterwards, later \<^verbatim>\<open>spawn\<close> calls included. The witness is the
  scenario of the spec with both calls before the job: the payload maps \<^verbatim>\<open>FOO\<close> to
  \<^verbatim>\<open>"2"\<close>, also after a third overlay arrives.
\<close>

theorem spawn_overlays_merge_last_wins:
  assumes "s = run es (init mid env svc lvl)"
    and "microtasks s = (IpcAfterBarrier p, out) # rest"
  shows "window (step Microtask s) = Some (nextWindowId s) \<and>
         map_option cfg_userEnv (loadedConfig (windows (run (Microtask # es') s) (nextWindowId s))) =
           Some (foldl (++) env (overlaysOf es)) \<and>
         map_option jsonUserEnv (loadedConfig (windows (run (Microtask # es') s) (nextWindowId s))) =
           Some (\<lambda>key. case foldl (++) env (overlaysOf es) key of
                          Some (Some v) \<Rightarrow> Some v | _ \<Rightarrow> None) \<and>
         (overlaysOf es \<noteq> [] \<longrightarrow>
            (\<forall>key v. last (overlaysOf es) key = Some v \<longrightarrow>
               foldl (++) env (overlaysOf es) key = Some v))"
proof -
  let ?s0 = "s\<lparr>microtasks := rest\<rparr>"
  let ?w = "nextWindowId s"
  have st: "step Microtask s = ipcAfterBarrier p ?s0"
    using assms(2) by (simp add: runMicrotask_def resume_def)
  have u: "userEnv ?s0 = foldl (++) env (overlaysOf es)"
    using assms(1) by (simp add: userEnv_reachable)
  from ipcAfterBarrier_payload [of p ?s0]
  have w: "window (step Microtask s) = Some ?w"
    and c: "map_option cfg_userEnv (loadedConfig (windows (step Microtask s) ?w)) =
              Some (foldl (++) env (overlaysOf es))"
    unfolding st u by simp_all
  have "?w < nextWindowId (step Microtask s)"
    unfolding st by (simp add: nextWindowId_ipcAfterBarrier)
  with cfg_kept_run [of "step Microtask s" es']
  have k: "loadedConfig (windows (run (Microtask # es') s) ?w) =
           loadedConfig (windows (step Microtask s) ?w)"
    by simp
  have c': "map_option cfg_userEnv (loadedConfig (windows (run (Microtask # es') s) ?w)) =
              Some (foldl (++) env (overlaysOf es))"
    unfolding k by (rule c)
  then have j: "map_option jsonUserEnv (loadedConfig (windows (run (Microtask # es') s) ?w)) =
           Some (\<lambda>key. case foldl (++) env (overlaysOf es) key of
                          Some (Some v) \<Rightarrow> Some v | _ \<Rightarrow> None)"
    by (cases "loadedConfig (windows (run (Microtask # es') s) ?w)") (auto simp: jsonUserEnv_def)
  have l: "overlaysOf es \<noteq> [] \<longrightarrow>
            (\<forall>key v. last (overlaysOf es) key = Some v \<longrightarrow>
               foldl (++) env (overlaysOf es) key = Some v)"
    by (simp add: last_overlay_wins)
  show ?thesis using w c' j l by blast
qed

theorem spawn_overlays_merge_last_wins_witness:
  "microtasks (run [Connect, Spawn [''FOO'' \<mapsto> Some ''1''], Spawn [''FOO'' \<mapsto> Some ''2'']] fresh) =
     [(IpcAfterBarrier 1, Fulfilled VTrue)] \<and>
   map_option (\<lambda>c. jsonUserEnv c ''FOO'')
     (loadedConfig (windows (run [Connect, Spawn [''FOO'' \<mapsto> Some ''1''],
        Spawn [''FOO'' \<mapsto> Some ''2''], Microtask, Spawn [''FOO'' \<mapsto> Some ''3'']] fresh) 0))
     = Some (Some ''2'') \<and>
   microtasks (run [Connect, Spawn [''FOO'' \<mapsto> Some ''1''], Spawn [''FOO'' \<mapsto> None]] fresh) =
     [(IpcAfterBarrier 1, Fulfilled VTrue)] \<and>
   map_option (\<lambda>c. jsonUserEnv c ''FOO'')
     (loadedConfig (windows (run [Connect, Spawn [''FOO'' \<mapsto> Some ''1''],
        Spawn [''FOO'' \<mapsto> None], Microtask] fresh) 0)) = Some None"
proof -
  let ?a = "[Connect, Spawn [''FOO'' \<mapsto> Some ''1''], Spawn [''FOO'' \<mapsto> Some ''2'']]"
  let ?b = "[Connect, Spawn [''FOO'' \<mapsto> Some ''1''], Spawn [''FOO'' \<mapsto> None]]"
  have ra: "run ?a fresh = run ?a (init ''machine'' Map.empty services0 0)"
    and rb: "run ?b fresh = run ?b (init ''machine'' Map.empty services0 0)"
    by (simp_all only: fresh_def)
  have qa: "microtasks (run ?a fresh) = (IpcAfterBarrier 1, Fulfilled VTrue) # []"
    and qb: "microtasks (run ?b fresh) = (IpcAfterBarrier 1, Fulfilled VTrue) # []"
    and na: "nextWindowId (run ?a fresh) = 0" and nb: "nextWindowId (run ?b fresh) = 0"
    by code_simp+
  have ea: "run [Connect, Spawn [''FOO'' \<mapsto> Some ''1''], Spawn [''FOO'' \<mapsto> Some ''2''],
                 Microtask, Spawn [''FOO'' \<mapsto> Some ''3'']] fresh =
            run (Microtask # [Spawn [''FOO'' \<mapsto> Some ''3'']]) (run ?a fresh)"
    and eb: "run [Connect, Spawn [''FOO'' \<mapsto> Some ''1''], Spawn [''FOO'' \<mapsto> None], Microtask] fresh =
            run (Microtask # []) (run ?b fresh)"
    by (simp_all only: run.simps)
  from spawn_overlays_merge_last_wins [OF ra qa, of "[Spawn [''FOO'' \<mapsto> Some ''3'']]"]
  have "map_option jsonUserEnv (loadedConfig (windows
          (run (Microtask # [Spawn [''FOO'' \<mapsto> Some ''3'']]) (run ?a fresh)) 0)) =
        Some (\<lambda>key. case foldl (++) Map.empty (overlaysOf ?a) key of
                       Some (Some v) \<Rightarrow> Some v | _ \<Rightarrow> None)"
    unfolding na by blast
  then have 1: "map_option (\<lambda>c. jsonUserEnv c ''FOO'') (loadedConfig (windows
          (run (Microtask # [Spawn [''FOO'' \<mapsto> Some ''3'']]) (run ?a fresh)) 0)) = Some (Some ''2'')"
    by (cases "loadedConfig (windows
          (run (Microtask # [Spawn [''FOO'' \<mapsto> Some ''3'']]) (run ?a fresh)) 0)")
       (auto dest: fun_cong [where x = "''FOO''"])
  from spawn_overlays_merge_last_wins [OF rb qb, of "[]"]
  have "map_option jsonUserEnv (loadedConfig (windows (run (Microtask # []) (run ?b fresh)) 0)) =
        Some (\<lambda>key. case foldl (++) Map.empty (overlaysOf ?b) key of
                       Some (Some v) \<Rightarrow> Some v | _ \<Rightarrow> None)"
    unfolding nb by blast
  then have 2: "map_option (\<lambda>c. jsonUserEnv c ''FOO'')
      (loadedConfig (windows (run (Microtask # []) (run ?b fresh)) 0)) = Some None"
    by (cases "loadedConfig (windows (run (Microtask # []) (run ?b fresh)) 0)")
       (auto dest: fun_cong [where x = "''FOO''"])
  show ?thesis using qa qb 1 2 unfolding ea eb by simp
qed

text \<open>
  C8. A shutdown trigger on a coordinator whose host was never created (the window
  handle is undefined) returns at once: \<^verbatim>\<open>onWillShutdown\<close> leaves the whole state as it
  was, so no signal is sent, no close is scheduled (the timers are the same) and the
  trace of outside calls does not grow; the model of the handler has no failing branch.
\<close>

theorem shutdown_without_host_is_noop:
  "window s = None \<Longrightarrow> onWillShutdown s = s \<and> step WillShutdown s = s"
  by (simp add: onWillShutdown_def)

theorem shutdown_without_host_is_noop_witness:
  "window fresh = None \<and> onWillShutdown fresh = fresh \<and> step WillShutdown fresh = fresh"
proof -
  have w: "window fresh = None" by (simp add: fresh_def init_def)
  show ?thesis using w shutdown_without_host_is_noop [OF w] by simp
qed

text \<open>
  C9. Opening the gate is idempotent and permanent, and no waiter is lost or released
  twice. On the gate itself: \<^verbatim>\<open>open()\<close> releases exactly the waiters registered so far
  and leaves none behind, a second \<^verbatim>\<open>open()\<close> changes nothing and releases nobody
  again, a waiter that arrives at an open gate is released at once and is not kept, and a
  waiter that arrived at the closed gate is released by the next \<^verbatim>\<open>open()\<close>. On the
  coordinator: any number of \<^verbatim>\<open>spawn\<close> calls leaves the gate and the queue of released
  jobs as the first one did, and no event of any kind closes an open gate. The wait of
  the coordinator at a closed gate keeps the waiter, behind those already there, and
  queues nothing; the next \<^verbatim>\<open>spawn\<close> queues each of them once. In every state a
  coordinator can reach, the one waiter there can be, the body behind the memoized
  \<^verbatim>\<open>whenIpcReady\<close>, is either still waiting at the gate, or a job of the queue, or has
  run, exactly one of the three and once; it is not waiting when the gate is open; and a
  first access at the closed gate followed by \<^verbatim>\<open>spawn\<close> puts exactly that body into the
  queue.
\<close>

theorem gate_open_idempotent_permanent:
  "barrier_open (fst (barrier_open b)) = (fst (barrier_open b), []) \<and>
   isOpen (fst (barrier_open b)) \<and>
   barrier_open b = (\<lparr>isOpen = True, waiters = []\<rparr>, waiters b) \<and>
   (isOpen b \<longrightarrow> barrier_wait k b = (b, [k])) \<and>
   (\<not> isOpen b \<longrightarrow> barrier_open (fst (barrier_wait k b)) = (\<lparr>isOpen = True, waiters = []\<rparr>, waiters b @ [k])) \<and>
   whenSpawnedBarrier (run (map Spawn (e # es)) s) = whenSpawnedBarrier (spawn e s) \<and>
   microtasks (run (map Spawn (e # es)) s) = microtasks (spawn e s) \<and>
   microtasks (spawn e s) = microtasks s @ map (\<lambda>k. (k, Fulfilled VTrue)) (waiters (whenSpawnedBarrier s)) \<and>
   (opened s \<longrightarrow> opened (run evs s)) \<and>
   (opened s \<longrightarrow> awaitBarrier k s = enqueue k (Fulfilled VTrue) s) \<and>
   (\<not> opened s \<longrightarrow>
      whenSpawnedBarrier (awaitBarrier k s) =
        \<lparr>isOpen = False, waiters = waiters (whenSpawnedBarrier s) @ [k]\<rparr> \<and>
      microtasks (awaitBarrier k s) = microtasks s \<and>
      microtasks (spawn e (awaitBarrier k s)) =
        microtasks s @ map (\<lambda>k. (k, Fulfilled VTrue)) (waiters (whenSpawnedBarrier s) @ [k])) \<and>
   length (waiters (whenSpawnedBarrier (run es0 (init mid env svc lvl)))) +
     length (filter (\<lambda>j. isBody (fst j)) (microtasks (run es0 (init mid env svc lvl)))) +
     hostCreations (run es0 (init mid env svc lvl)) =
       (case memo_whenIpcReady (run es0 (init mid env svc lvl)) of None \<Rightarrow> 0 | Some p \<Rightarrow> 1) \<and>
   (opened (run es0 (init mid env svc lvl)) \<longrightarrow>
      waiters (whenSpawnedBarrier (run es0 (init mid env svc lvl))) = []) \<and>
   (\<forall>w \<in> set (waiters (whenSpawnedBarrier (run es0 (init mid env svc lvl)))).
      \<exists>p. w = IpcAfterBarrier p \<and> memo_whenIpcReady (run es0 (init mid env svc lvl)) = Some p) \<and>
   (memo_whenIpcReady (run es0 (init mid env svc lvl)) = None \<and>
    \<not> opened (run es0 (init mid env svc lvl)) \<longrightarrow>
      waiters (whenSpawnedBarrier (snd (whenIpcReady (run es0 (init mid env svc lvl))))) =
        [IpcAfterBarrier (fst (whenIpcReady (run es0 (init mid env svc lvl))))] \<and>
      microtasks (spawn e (snd (whenIpcReady (run es0 (init mid env svc lvl))))) =
        microtasks (run es0 (init mid env svc lvl)) @
          [(IpcAfterBarrier (fst (whenIpcReady (run es0 (init mid env svc lvl)))), Fulfilled VTrue)])"
proof -
  let ?r = "run es0 (init mid env svc lvl)"
  have oi: "once_inv ?r" by (rule once_reachable)
  have hs: "handshake_inv ?r" by (rule hs_reachable)
  have sg: "signal_inv ?r" by (rule sg_reachable)
  have "whenSpawnedBarrier (run (map Spawn (e # es)) s) = \<lparr>isOpen = True, waiters = []\<rparr>"
    by (rule spawns_fields(2)) simp
  then have a: "whenSpawnedBarrier (run (map Spawn (e # es)) s) = whenSpawnedBarrier (spawn e s)"
    by (simp only: spawn_fields)
  have "microtasks (run (map Spawn (e # es)) s) =
      microtasks s @ map (\<lambda>k. (k, Fulfilled VTrue)) (waiters (whenSpawnedBarrier s))"
    by (rule spawns_fields(3)) simp
  then have b: "microtasks (run (map Spawn (e # es)) s) = microtasks (spawn e s)"
    by (simp only: spawn_fields)
  have c: "opened s \<longrightarrow> awaitBarrier k s = enqueue k (Fulfilled VTrue) s"
    by (simp add: opened_def awaitBarrier_def barrier_wait_def enqueue_def)
  have d: "barrier_open (fst (barrier_open b)) = (fst (barrier_open b), [])"
    "isOpen (fst (barrier_open b))"
    "barrier_open b = (\<lparr>isOpen = True, waiters = []\<rparr>, waiters b)"
    "isOpen b \<longrightarrow> barrier_wait k b = (b, [k])"
    "\<not> isOpen b \<longrightarrow> barrier_open (fst (barrier_wait k b)) = (\<lparr>isOpen = True, waiters = []\<rparr>, waiters b @ [k])"
    by (simp_all add: barrier_open_def barrier_wait_def)
  have e: "microtasks (spawn e s) =
      microtasks s @ map (\<lambda>k. (k, Fulfilled VTrue)) (waiters (whenSpawnedBarrier s))"
    by simp
  have f: "opened s \<longrightarrow> opened (run evs s)"
    by (simp add: opened_run)
  have g: "\<not> opened s \<longrightarrow>
      whenSpawnedBarrier (awaitBarrier k s) =
        \<lparr>isOpen = False, waiters = waiters (whenSpawnedBarrier s) @ [k]\<rparr> \<and>
      microtasks (awaitBarrier k s) = microtasks s \<and>
      microtasks (spawn e (awaitBarrier k s)) =
        microtasks s @ map (\<lambda>k. (k, Fulfilled VTrue)) (waiters (whenSpawnedBarrier s) @ [k])"
    using awaitBarrier_closed by blast
  have h: "length (waiters (whenSpawnedBarrier ?r)) +
     length (filter (\<lambda>j. isBody (fst j)) (microtasks ?r)) + hostCreations ?r =
       (case memo_whenIpcReady ?r of None \<Rightarrow> 0 | Some p \<Rightarrow> 1)"
    using oi waiters_are_bodies [OF hs] by (simp add: once_inv_def pendingBodies_def)
  have i: "opened ?r \<longrightarrow> waiters (whenSpawnedBarrier ?r) = []"
    using oi by (simp add: once_inv_def)
  have j: "\<forall>w \<in> set (waiters (whenSpawnedBarrier ?r)).
      \<exists>p. w = IpcAfterBarrier p \<and> memo_whenIpcReady ?r = Some p"
    using waiter_is_memoized_body [OF hs sg] by blast
  have l: "memo_whenIpcReady ?r = None \<and> \<not> opened ?r \<longrightarrow>
      waiters (whenSpawnedBarrier (snd (whenIpcReady ?r))) = [IpcAfterBarrier (fst (whenIpcReady ?r))] \<and>
      microtasks (spawn e (snd (whenIpcReady ?r))) =
        microtasks ?r @ [(IpcAfterBarrier (fst (whenIpcReady ?r)), Fulfilled VTrue)]"
    using first_access_then_spawn [OF oi hs] by blast
  show ?thesis
    apply (intro conjI)
    using a b c d e f g h i j l by blast+
qed

theorem gate_open_idempotent_permanent_witness:
  "opened (run [Spawn Map.empty] fresh) \<and>
   opened (run [Connect, IpcReadyMessage, Microtask, WillShutdown, Timeout True, Spawn Map.empty, Toggle]
             (run [Spawn Map.empty] fresh)) \<and>
   barrier_wait (IpcAfterBarrier 0) \<lparr>isOpen = True, waiters = []\<rparr> =
     (\<lparr>isOpen = True, waiters = []\<rparr>, [IpcAfterBarrier 0]) \<and>
   barrier_open (fst (barrier_wait (IpcAfterBarrier 0) \<lparr>isOpen = False, waiters = []\<rparr>)) =
     (\<lparr>isOpen = True, waiters = []\<rparr>, [IpcAfterBarrier 0]) \<and>
   memo_whenIpcReady fresh = None \<and> \<not> opened fresh \<and>
   waiters (whenSpawnedBarrier (snd (whenIpcReady fresh))) = [IpcAfterBarrier 0] \<and>
   microtasks (spawn Map.empty (snd (whenIpcReady fresh))) = [(IpcAfterBarrier 0, Fulfilled VTrue)] \<and>
   microtasks (run [Connect, Spawn Map.empty, Spawn Map.empty, Spawn Map.empty] fresh) =
     [(IpcAfterBarrier 1, Fulfilled VTrue)]"
proof -
  have o: "opened (run [Spawn Map.empty] fresh)" by code_simp
  have i: "isOpen \<lparr>isOpen = True, waiters = []\<rparr>" "\<not> isOpen \<lparr>isOpen = False, waiters = []\<rparr>"
    by simp_all
  have m: "memo_whenIpcReady fresh = None" and c: "\<not> opened fresh"
    and q: "microtasks fresh = []" and p: "fst (whenIpcReady fresh) = 0"
    and t: "microtasks (run [Connect, Spawn Map.empty, Spawn Map.empty, Spawn Map.empty] fresh) =
     [(IpcAfterBarrier 1, Fulfilled VTrue)]"
    by code_simp+
  have r: "run [] (init ''machine'' Map.empty services0 0) = fresh"
    by (simp add: fresh_def)
  note w1 = gate_open_idempotent_permanent
    [of "\<lparr>isOpen = True, waiters = []\<rparr>" "IpcAfterBarrier 0" Map.empty "[]" "run [Spawn Map.empty] fresh"
        "[Connect, IpcReadyMessage, Microtask, WillShutdown, Timeout True, Spawn Map.empty, Toggle]"
        "[]" "''machine''" Map.empty services0 0]
  note w2 = gate_open_idempotent_permanent
    [of "\<lparr>isOpen = False, waiters = []\<rparr>" "IpcAfterBarrier 0" Map.empty "[]" "run [Spawn Map.empty] fresh"
        "[]" "[]" "''machine''" Map.empty services0 0]
  from w1 o i have 1: "opened (run [Connect, IpcReadyMessage, Microtask, WillShutdown, Timeout True,
      Spawn Map.empty, Toggle] (run [Spawn Map.empty] fresh)) \<and>
     barrier_wait (IpcAfterBarrier 0) \<lparr>isOpen = True, waiters = []\<rparr> =
       (\<lparr>isOpen = True, waiters = []\<rparr>, [IpcAfterBarrier 0])"
    by blast
  from w2 i have 2: "barrier_open (fst (barrier_wait (IpcAfterBarrier 0) \<lparr>isOpen = False, waiters = []\<rparr>)) =
     (\<lparr>isOpen = True, waiters = []\<rparr>, [IpcAfterBarrier 0])"
    by simp
  from w2 m c have 3: "waiters (whenSpawnedBarrier (snd (whenIpcReady fresh))) =
        [IpcAfterBarrier (fst (whenIpcReady fresh))] \<and>
      microtasks (spawn Map.empty (snd (whenIpcReady fresh))) =
        microtasks fresh @ [(IpcAfterBarrier (fst (whenIpcReady fresh)), Fulfilled VTrue)]"
    unfolding r by blast
  then have 4: "waiters (whenSpawnedBarrier (snd (whenIpcReady fresh))) = [IpcAfterBarrier 0] \<and>
      microtasks (spawn Map.empty (snd (whenIpcReady fresh))) = [(IpcAfterBarrier 0, Fulfilled VTrue)]"
    by (simp only: p q append_Nil)
  show ?thesis using o 1 2 4 m c t by blast
qed

text \<open>
  C10. The listener of \<^verbatim>\<open>vscode:createSharedProcessMessageChannel\<close> awaits
  \<^verbatim>\<open>whenReady()\<close> before it calls \<^verbatim>\<open>connect()\<close> and posts the port: in every state a
  coordinator can reach, a port has been posted back to a requester only if the
  \<^verbatim>\<open>init-done\<close> message has been observed, and, through \<^verbatim>\<open>connect()\<close>, the barrier is
  open and \<^verbatim>\<open>ipc-ready\<close> has been observed as well. \<^verbatim>\<open>whenReady()\<close> itself creates
  nothing: in any state it leaves the gate, the window handle, the windows, the memoized
  ipc-ready promise and the job queue as they are; and the first part of the listener,
  up to its \<^verbatim>\<open>await\<close>, does not access the ipc-ready milestone or open a channel.
\<close>

theorem channel_request_waits_for_init_done:
  assumes "s = run es (init mid env svc lvl)"
  shows "(PostMessage sender nonce v \<in> set (trace s) \<longrightarrow>
            initDoneSeen s \<and> ipcReadySeen s \<and> opened s) \<and>
         whenSpawnedBarrier (snd (whenReady t)) = whenSpawnedBarrier t \<and>
         window (snd (whenReady t)) = window t \<and>
         nextWindowId (snd (whenReady t)) = nextWindowId t \<and>
         hostCreations (snd (whenReady t)) = hostCreations t \<and>
         memo_whenIpcReady (snd (whenReady t)) = memo_whenIpcReady t \<and>
         microtasks (snd (whenReady t)) = microtasks t \<and>
         memo_whenIpcReady (channelRequest sender nonce t) = memo_whenIpcReady t \<and>
         nextPort (channelRequest sender nonce t) = nextPort t"
proof -
  have "handshake_inv s" using assms by (simp add: hs_reachable)
  then have "PostMessage sender nonce v \<in> set (trace s) \<longrightarrow> facts s = (True, True, True)"
    unfolding handshake_inv_def by (metis isPost.simps(1))
  then have "PostMessage sender nonce v \<in> set (trace s) \<longrightarrow>
      initDoneSeen s \<and> ipcReadySeen s \<and> opened s"
    by (simp add: facts_def)
  then show ?thesis by (simp add: whenReady_frame channelRequest_frame)
qed

theorem channel_request_waits_for_init_done_witness:
  "PostMessage 7 ''nonce'' (VPort 0) \<in> set (trace (run [ChannelRequest 7 ''nonce'', Spawn Map.empty,
      InitDoneMessage, Microtask, Microtask, IpcReadyMessage, Microtask, Microtask, Microtask] fresh)) \<and>
   initDoneSeen (run [ChannelRequest 7 ''nonce'', Spawn Map.empty,
      InitDoneMessage, Microtask, Microtask, IpcReadyMessage, Microtask, Microtask, Microtask] fresh) \<and>
   \<not> initDoneSeen (run [ChannelRequest 7 ''nonce'', Spawn Map.empty, Microtask, IpcReadyMessage,
      Microtask, Microtask, Microtask] fresh) \<and>
   trace (run [ChannelRequest 7 ''nonce'', Spawn Map.empty, Microtask, IpcReadyMessage,
      Microtask, Microtask, Microtask] fresh) = [Trace msg_channel_request, IpcMainOnce ch_init_done]"
proof -
  let ?es = "[ChannelRequest 7 ''nonce'', Spawn Map.empty,
      InitDoneMessage, Microtask, Microtask, IpcReadyMessage, Microtask, Microtask, Microtask]"
  have p: "PostMessage 7 ''nonce'' (VPort 0) \<in> set (trace (run ?es fresh))" by code_simp
  have n: "\<not> initDoneSeen (run [ChannelRequest 7 ''nonce'', Spawn Map.empty, Microtask, IpcReadyMessage,
      Microtask, Microtask, Microtask] fresh)" by code_simp
  have t: "trace (run [ChannelRequest 7 ''nonce'', Spawn Map.empty, Microtask, IpcReadyMessage,
      Microtask, Microtask, Microtask] fresh) = [Trace msg_channel_request, IpcMainOnce ch_init_done]"
    by code_simp
  have r: "run ?es fresh = run ?es (init ''machine'' Map.empty services0 0)"
    by (simp only: fresh_def)
  show ?thesis
    using channel_request_waits_for_init_done [OF r, of 7 "''nonce''" "VPort 0"] p n t by simp
qed

end
